theory Spec2Isabelle
  imports Main "HOL-Library.Word" "HOL-Library.List_Lexorder" "HOL-Library.Char_ord"
begin

unbundle bit_operations_syntax

section \<open>Machine types\<close>

type_synonym byte = "8 word"
type_synonym u16 = "16 word"
type_synonym u32 = "32 word"
type_synonym u64 = "64 word"

section \<open>CRC32 (acf.cc, anonymous namespace)\<close>

text \<open>
  One round of the inner loop of \<^verbatim>\<open>crc32_generate_table\<close>:
  \<^verbatim>\<open>crc = (crc & 1) ? (crc >> 1) ^ 0xEDB88320 : (crc >> 1)\<close>.
\<close>

definition crc32_bit :: "u32 \<Rightarrow> u32" where
  "crc32_bit crc = (if crc AND 1 \<noteq> 0 then drop_bit 1 crc XOR 0xEDB88320 else drop_bit 1 crc)"

text \<open>
  The table entry \<^verbatim>\<open>crc32_tab[i]\<close>: eight rounds starting from \<open>i\<close>. The table is
  only ever indexed with a value masked by \<^verbatim>\<open>0xFF\<close>.
\<close>

definition crc32_tab :: "u32 \<Rightarrow> u32" where
  "crc32_tab i = (crc32_bit ^^ 8) i"

text \<open>The byte loop of \<^verbatim>\<open>crc32_update\<close>, between the two complements.\<close>

fun crc32_loop :: "u32 \<Rightarrow> byte list \<Rightarrow> u32" where
  "crc32_loop crc [] = crc"
| "crc32_loop crc (p # ps) =
     crc32_loop (crc32_tab ((crc XOR ucast p) AND 0xFF) XOR drop_bit 8 crc) ps"

definition crc32_update :: "u32 \<Rightarrow> byte list \<Rightarrow> u32" where
  "crc32_update crc data = NOT (crc32_loop (NOT crc) data)"

definition crc32 :: "byte list \<Rightarrow> u32" where
  "crc32 data = crc32_update 0 data"

section \<open>Errors\<close>

text \<open>
  Every failure of the archiver is a \<^verbatim>\<open>std::runtime_error\<close> told apart by its message, or
  an exception of the standard library. The constructors name the kinds of the
  specification:
  \<^item> \<open>IoError\<close>: "Could not create archive file" / "Could not open archive file";
  \<^item> \<open>UnknownFormat\<close>: "Not a valid ACF archive";
  \<^item> \<open>BadArchive\<close>: "Central directory CRC32 mismatch. Archive is likely corrupted.";
  \<^item> \<open>CRCMismatch\<close>: "CRC32 mismatch for file";
  \<^item> \<open>NotFound\<close>: "File not found in archive";
  \<^item> \<open>InvalidOperation\<close>: "Cannot extract data from a directory entry";
  \<^item> \<open>CompressorError\<close>: "ZSTD_endStream error" / "ZSTD_decompressStream error";
  \<^item> \<open>AllocFailure\<close>: \<^verbatim>\<open>std::length_error\<close> or \<^verbatim>\<open>std::bad_alloc\<close> from a vector that
    cannot be allocated;
  \<^item> \<open>IndeterminateRead\<close>: the stream scan of \<^verbatim>\<open>ExtractData\<close> read fewer than 36 bytes
    into its uninitialised \<^verbatim>\<open>currentEntry\<close>; what the C++ does next depends on
    indeterminate memory, and the model stops there.
\<close>

datatype error =
    IoError | UnknownFormat | BadArchive | CRCMismatch | NotFound | InvalidOperation
  | CompressorError | AllocFailure | IndeterminateRead

section \<open>Packed little-endian structures (acf.hh)\<close>

text \<open>
  The structures are written and read with \<^verbatim>\<open>reinterpret_cast\<close> and \<^verbatim>\<open>memcpy\<close> under
  \<^verbatim>\<open>#pragma pack(push, 1)\<close> on a little-endian machine: the fields follow each other
  without padding, least significant byte first.
\<close>

fun le_bytes :: "nat \<Rightarrow> 'a::len word \<Rightarrow> byte list" where
  "le_bytes 0 w = []"
| "le_bytes (Suc n) w = ucast w # le_bytes n (drop_bit 8 w)"

fun le_word :: "byte list \<Rightarrow> 'a::len word" where
  "le_word [] = 0"
| "le_word (b # bs) = ucast b OR push_bit 8 (le_word bs)"

definition ACF_MAGIC :: u32 where
  "ACF_MAGIC = 0x39464341"

definition ACF_VERSION :: u32 where
  "ACF_VERSION = 0x10000900"

text \<open>\<^verbatim>\<open>enum class EntryType : uint8_t { File = 0, Directory = 1 }\<close>; an entry read from a
  file can hold any byte in its type field.\<close>

definition EntryType_File :: byte where
  "EntryType_File = 0"

definition EntryType_Directory :: byte where
  "EntryType_Directory = 1"

record ACFHeader =
  magic :: u32
  version :: u32
  centralDirOffset :: u64
  entryCount :: u64
  centralDirCRC32 :: u32
  reserved :: u32

record ACFEntryData =
  entry_type :: byte
  originalSize :: u64
  compressedSize :: u64
  dataOffset :: u64
  entry_crc32 :: u32
  filedatetime :: u32
  fileattribute :: byte
  pathLength :: u16

text \<open>The default member initialisers of \<^verbatim>\<open>ACFHeader\<close>.\<close>

definition default_header :: ACFHeader where
  "default_header = \<lparr>magic = ACF_MAGIC, version = ACF_VERSION, centralDirOffset = 0,
     entryCount = 0, centralDirCRC32 = 0, reserved = 0\<rparr>"

text \<open>\<^verbatim>\<open>ACFEntryData e{}\<close>: value initialisation, every field zero.\<close>

definition zero_entry :: ACFEntryData where
  "zero_entry = \<lparr>entry_type = 0, originalSize = 0, compressedSize = 0, dataOffset = 0,
     entry_crc32 = 0, filedatetime = 0, fileattribute = 0, pathLength = 0\<rparr>"

text \<open>\<^verbatim>\<open>sizeof(ACFHeader)\<close> under \<^verbatim>\<open>pack(1)\<close>: 4 + 4 + 8 + 8 + 4 + 4 bytes;
  \<^verbatim>\<open>sizeof(ACFEntryData)\<close>: 1 + 8 + 8 + 8 + 4 + 4 + 1 + 2 bytes.\<close>

definition sizeof_ACFHeader :: nat where
  "sizeof_ACFHeader = 32"

definition sizeof_ACFEntryData :: nat where
  "sizeof_ACFEntryData = 36"

definition header_bytes :: "ACFHeader \<Rightarrow> byte list" where
  "header_bytes h = le_bytes 4 (magic h) @ le_bytes 4 (version h)
     @ le_bytes 8 (centralDirOffset h) @ le_bytes 8 (entryCount h)
     @ le_bytes 4 (centralDirCRC32 h) @ le_bytes 4 (reserved h)"

definition header_of_bytes :: "byte list \<Rightarrow> ACFHeader" where
  "header_of_bytes bs = \<lparr>magic = le_word (take 4 bs), version = le_word (take 4 (drop 4 bs)),
     centralDirOffset = le_word (take 8 (drop 8 bs)), entryCount = le_word (take 8 (drop 16 bs)),
     centralDirCRC32 = le_word (take 4 (drop 24 bs)), reserved = le_word (take 4 (drop 28 bs))\<rparr>"

definition entry_bytes :: "ACFEntryData \<Rightarrow> byte list" where
  "entry_bytes e = entry_type e # le_bytes 8 (originalSize e) @ le_bytes 8 (compressedSize e)
     @ le_bytes 8 (dataOffset e) @ le_bytes 4 (entry_crc32 e) @ le_bytes 4 (filedatetime e)
     @ fileattribute e # le_bytes 2 (pathLength e)"

definition entry_of_bytes :: "byte list \<Rightarrow> ACFEntryData" where
  "entry_of_bytes bs = \<lparr>entry_type = le_word (take 1 bs),
     originalSize = le_word (take 8 (drop 1 bs)), compressedSize = le_word (take 8 (drop 9 bs)),
     dataOffset = le_word (take 8 (drop 17 bs)), entry_crc32 = le_word (take 4 (drop 25 bs)),
     filedatetime = le_word (take 4 (drop 29 bs)), fileattribute = le_word (take 1 (drop 33 bs)),
     pathLength = le_word (take 2 (drop 34 bs))\<rparr>"

section \<open>Input streams\<close>

text \<open>
  A \<^verbatim>\<open>std::ifstream\<close> opened in binary mode: the bytes of the file, the read position and
  the fail bit. \<^verbatim>\<open>read(buf, n)\<close> on a failed stream stores nothing; otherwise it stores
  the bytes that are left, at most \<open>n\<close>, over the beginning of the buffer, and sets the
  fail bit when fewer than \<open>n\<close> were there. The function returns the buffer after the call.
\<close>

record ifstream =
  str_data :: "byte list"
  str_pos :: nat
  str_fail :: bool

definition ifstream_open :: "byte list \<Rightarrow> ifstream" where
  "ifstream_open d = \<lparr>str_data = d, str_pos = 0, str_fail = False\<rparr>"

definition istream_read :: "nat \<Rightarrow> byte list \<Rightarrow> ifstream \<Rightarrow> byte list \<times> ifstream" where
  "istream_read n buf s =
     (if str_fail s then (buf, s)
      else let got = take n (drop (str_pos s) (str_data s))
           in (got @ drop (length got) buf,
               s\<lparr>str_pos := str_pos s + length got, str_fail := length got < n\<rparr>))"

text \<open>
  \<^verbatim>\<open>seekg(pos)\<close> does nothing on a failed stream. The 64-bit unsigned offsets of the
  archive are converted to the signed \<^verbatim>\<open>std::streamoff\<close>: from \<open>2^63\<close> on they are negative
  and the seek fails. A seek past the end of the file succeeds; the next read is short.
\<close>

definition seekg :: "nat \<Rightarrow> ifstream \<Rightarrow> ifstream" where
  "seekg p s =
     (if str_fail s then s
      else if p < 2 ^ 63 then s\<lparr>str_pos := p\<rparr> else s\<lparr>str_fail := True\<rparr>)"

text \<open>\<^verbatim>\<open>seekg(0, std::ios::end)\<close>.\<close>

definition seekg_end :: "ifstream \<Rightarrow> ifstream" where
  "seekg_end s = (if str_fail s then s else s\<lparr>str_pos := length (str_data s)\<rparr>)"

section \<open>The platform: Zstandard and the allocator\<close>

text \<open>
  Zstandard is an external library. The streaming calls are abstracted to functions of
  the whole input that was fed: \<open>zstd_compress\<close> gives every byte the compressor emitted
  for a source file (\<open>None\<close> when \<^verbatim>\<open>ZSTD_endStream\<close> reports an error),
  \<open>zstd_decompress\<close> gives the decompressed bytes of the input fed to
  \<^verbatim>\<open>ZSTD_decompressStream\<close> (\<open>None\<close> when it reports an error). The recommended buffer
  sizes are parameters. \<open>can_reserve_entries n\<close> and \<open>can_reserve_bytes n\<close> say whether
  \<^verbatim>\<open>reserve(n)\<close> on the entry vector and on the byte vector succeeds. Other allocations
  and the writes to an open output stream are taken to succeed.
\<close>

record zstd_platform =
  zstd_compress :: "byte list \<Rightarrow> byte list option"
  zstd_decompress :: "byte list \<Rightarrow> byte list option"
  ZSTD_CStreamInSize :: nat
  ZSTD_DStreamInSize :: nat
  can_reserve_entries :: "nat \<Rightarrow> bool"
  can_reserve_bytes :: "nat \<Rightarrow> bool"

section \<open>ACFArchiver::List\<close>

text \<open>
  The parsing loop of \<^verbatim>\<open>List\<close> over the central-directory buffer: the first argument
  counts the iterations that are left, the second is the buffer from \<^verbatim>\<open>buffer_ptr\<close> to
  \<^verbatim>\<open>buffer_end\<close>. Both overrun checks \<^verbatim>\<open>break\<close> out of the loop.
\<close>

fun parse_entries :: "nat \<Rightarrow> byte list \<Rightarrow> (ACFEntryData \<times> byte list) list" where
  "parse_entries 0 buf = []"
| "parse_entries (Suc n) buf =
     (if length buf < sizeof_ACFEntryData then []
      else let entryData = entry_of_bytes (take sizeof_ACFEntryData buf);
               buf1 = drop sizeof_ACFEntryData buf
           in if length buf1 < unat (pathLength entryData) then []
              else (entryData, take (unat (pathLength entryData)) buf1)
                     # parse_entries n (drop (unat (pathLength entryData)) buf1))"

text \<open>
  The archive argument is the content of the file at \<^verbatim>\<open>archivePath\<close>, or \<open>None\<close> when it
  cannot be opened. The header object starts from its default member initialisers and
  a short read leaves the rest of them in place. With a 64-bit \<^verbatim>\<open>size_t\<close>, a central
  directory offset beyond the end of the file makes \<^verbatim>\<open>cdSize\<close> wrap around to more than
  \<open>2^63\<close>, which no vector can hold.
\<close>

definition List :: "zstd_platform \<Rightarrow> byte list option \<Rightarrow> error + (ACFEntryData \<times> byte list) list" where
  "List pf file =
     (case file of
        None \<Rightarrow> Inl IoError
      | Some d \<Rightarrow>
          let (hb, s1) = istream_read sizeof_ACFHeader (header_bytes default_header) (ifstream_open d);
              header = header_of_bytes hb
          in if magic header \<noteq> ACF_MAGIC then Inl UnknownFormat
             else
               let cdo = unat (centralDirOffset header);
                   s2 = seekg cdo s1;
                   s3 = seekg_end s2
               in if \<not> str_fail s3 \<and> length d < cdo then Inl AllocFailure
                  else
                    let cdSize = (if str_fail s3 then 0 else length d - cdo);
                        s4 = seekg cdo s3;
                        (centralDirBuffer, s5) = istream_read cdSize (replicate cdSize 0) s4
                    in if crc32 centralDirBuffer \<noteq> centralDirCRC32 header then Inl BadArchive
                       else if \<not> can_reserve_entries pf (unat (entryCount header))
                         then Inl AllocFailure
                       else Inr (parse_entries (unat (entryCount header)) centralDirBuffer))"

section \<open>ACFArchiver::ExtractData\<close>

text \<open>
  The stream scan: each iteration reads a descriptor into an uninitialised
  \<^verbatim>\<open>currentEntry\<close>, then \<^verbatim>\<open>pathLength\<close> bytes into a string of that many zero bytes, and
  stops at the first path equal to the requested one. The result is the matching entry
  with the stream after it, \<open>None\<close> when the loop ran out.
\<close>

fun scan_entries :: "nat \<Rightarrow> ifstream \<Rightarrow> byte list \<Rightarrow> error + (ACFEntryData \<times> ifstream) option" where
  "scan_entries 0 s archFileName = Inr None"
| "scan_entries (Suc n) s archFileName =
     (let (eb, s1) = istream_read sizeof_ACFEntryData (replicate sizeof_ACFEntryData 0) s
      in if str_fail s1 then Inl IndeterminateRead
         else
           let currentEntry = entry_of_bytes eb;
               len = unat (pathLength currentEntry);
               (path, s2) = istream_read len (replicate len 0) s1
           in if path = archFileName then Inr (Some (currentEntry, s2))
              else scan_entries n s2 archFileName)"

text \<open>
  The reading loop \<^verbatim>\<open>while (totalRead < targetEntry.compressedSize)\<close>: \<open>remaining\<close> is
  \<^verbatim>\<open>compressedSize - totalRead\<close>, \<open>fed\<close> collects what is handed to the decompressor, that
  is the first \<^verbatim>\<open>toRead\<close> bytes of the input buffer after each read. With a buffer size
  of 0 the loop never ends.
\<close>

partial_function (option) read_compressed ::
  "nat \<Rightarrow> nat \<Rightarrow> byte list \<Rightarrow> ifstream \<Rightarrow> byte list \<Rightarrow> byte list option" where
  "read_compressed inBuffSize remaining inBuff s fed =
     (if remaining = 0 then Some fed
      else let toRead = min inBuffSize remaining;
               (inBuff1, s1) = istream_read toRead inBuff s
           in read_compressed inBuffSize (remaining - toRead) inBuff1 s1 (fed @ take toRead inBuff1))"

text \<open>The part of \<^verbatim>\<open>ExtractData\<close> after the scan, for the entry that was found.\<close>

definition extract_entry :: "zstd_platform \<Rightarrow> ACFEntryData \<Rightarrow> ifstream \<Rightarrow> (error + byte list) option" where
  "extract_entry pf targetEntry s =
     (if entry_type targetEntry \<noteq> EntryType_File then Some (Inl InvalidOperation)
      else
        let s1 = seekg (unat (dataOffset targetEntry)) s
        in if \<not> can_reserve_bytes pf (unat (originalSize targetEntry)) then Some (Inl AllocFailure)
           else
             (case read_compressed (ZSTD_DStreamInSize pf) (unat (compressedSize targetEntry))
                     (replicate (ZSTD_DStreamInSize pf) 0) s1 [] of
                None \<Rightarrow> None
              | Some fed \<Rightarrow>
                  (case zstd_decompress pf fed of
                     None \<Rightarrow> Some (Inl CompressorError)
                   | Some decompressedData \<Rightarrow>
                       if crc32 decompressedData \<noteq> entry_crc32 targetEntry
                       then Some (Inl CRCMismatch)
                       else Some (Inr decompressedData))))"

text \<open>The result is \<open>None\<close> when the call does not return.\<close>

definition ExtractData :: "zstd_platform \<Rightarrow> byte list option \<Rightarrow> byte list \<Rightarrow> (error + byte list) option" where
  "ExtractData pf file archFileName =
     (case file of
        None \<Rightarrow> Some (Inl IoError)
      | Some d \<Rightarrow>
          let (hb, s1) = istream_read sizeof_ACFHeader (header_bytes default_header) (ifstream_open d);
              header = header_of_bytes hb
          in if magic header \<noteq> ACF_MAGIC then Some (Inl UnknownFormat)
             else
               let s2 = seekg (unat (centralDirOffset header)) s1
               in (case scan_entries (unat (entryCount header)) s2 archFileName of
                     Inl e \<Rightarrow> Some (Inl e)
                   | Inr None \<Rightarrow> Some (Inl NotFound)
                   | Inr (Some (targetEntry, s3)) \<Rightarrow> extract_entry pf targetEntry s3))"

section \<open>ACFArchiver::ExtractAll\<close>

text \<open>
  The output directory after the call: the directories created for Directory entries
  and the files written, both under the in-archive path that is appended to
  \<^verbatim>\<open>outputPath\<close>. \<open>writable path\<close> says whether the output stream for that path opens.
  Creating directories is taken to succeed; last-write times and attributes are set
  with their errors ignored and are not part of the model.
\<close>

record out_state =
  out_dirs :: "byte list set"
  out_files :: "byte list \<rightharpoonup> byte list"

definition empty_out :: out_state where
  "empty_out = \<lparr>out_dirs = {}, out_files = Map.empty\<rparr>"

fun ExtractAll_loop ::
  "zstd_platform \<Rightarrow> byte list option \<Rightarrow> (byte list \<Rightarrow> bool) \<Rightarrow> (ACFEntryData \<times> byte list) list
     \<Rightarrow> out_state \<Rightarrow> (error + out_state) option" where
  "ExtractAll_loop pf file writable [] out = Some (Inr out)"
| "ExtractAll_loop pf file writable ((entry, path) # rest) out =
     (if entry_type entry = EntryType_Directory
      then ExtractAll_loop pf file writable rest (out\<lparr>out_dirs := insert path (out_dirs out)\<rparr>)
      else if entry_type entry = EntryType_File
      then (case ExtractData pf file path of
              None \<Rightarrow> None
            | Some (Inl e) \<Rightarrow> Some (Inl e)
            | Some (Inr data) \<Rightarrow>
                ExtractAll_loop pf file writable rest
                  (if writable path then out\<lparr>out_files := (out_files out)(path \<mapsto> data)\<rparr> else out))
      else ExtractAll_loop pf file writable rest out)"

definition ExtractAll ::
  "zstd_platform \<Rightarrow> byte list option \<Rightarrow> (byte list \<Rightarrow> bool) \<Rightarrow> (error + out_state) option" where
  "ExtractAll pf file writable =
     (case List pf file of
        Inl e \<Rightarrow> Some (Inl e)
      | Inr entries \<Rightarrow> ExtractAll_loop pf file writable entries empty_out)"

section \<open>The file system seen by ACFArchiver::Create\<close>

text \<open>
  \<^verbatim>\<open>std::filesystem\<close> and the Win32 calls are external. \<open>'p\<close> is \<^verbatim>\<open>fs::path\<close>; its order
  is the one \<^verbatim>\<open>std::sort\<close> uses. The fields are the queries \<^verbatim>\<open>Create\<close> makes:
  \<^item> \<open>fs_can_create\<close>: the output stream for the archive opens;
  \<^item> \<open>fs_exists\<close>, \<open>fs_is_directory\<close>, \<open>fs_is_regular_file\<close>: the status queries;
  \<^item> \<open>fs_recursive_directory_iterator\<close>: the entries below a directory, in iteration order;
  \<^item> \<open>fs_internal_path internalBasePath basePath p\<close>: the UTF-8 bytes of
    \<^verbatim>\<open>(fs::path(internalBasePath) / fs::relative(p, basePath)).make_preferred()\<close>;
  \<^item> \<open>fs_dir_datetime\<close>, \<open>fs_file_datetime\<close>: the packed DOS time of the last write, as
    \<^verbatim>\<open>Create\<close> computes it for a directory and for a file;
  \<^item> \<open>fs_attributes\<close>: \<^verbatim>\<open>GetFileAttributesW\<close>, a 32-bit value stored into 8 bits;
  \<^item> \<open>fs_file_size\<close>: \<^verbatim>\<open>fs::file_size\<close>;
  \<^item> \<open>fs_open_read\<close>: the content of a source file, \<open>None\<close> when its stream does not open.
  The queries themselves are taken to succeed: a \<^verbatim>\<open>filesystem_error\<close> thrown by one of them
  is not part of the model, and neither are the progress callbacks.
\<close>

record 'p directory_entry =
  de_path :: 'p
  de_is_directory :: bool
  de_is_regular_file :: bool

record 'p filesystem =
  fs_can_create :: "'p \<Rightarrow> bool"
  fs_exists :: "'p \<Rightarrow> bool"
  fs_is_directory :: "'p \<Rightarrow> bool"
  fs_is_regular_file :: "'p \<Rightarrow> bool"
  fs_recursive_directory_iterator :: "'p \<Rightarrow> 'p directory_entry list"
  fs_internal_path :: "'p \<Rightarrow> 'p \<Rightarrow> 'p \<Rightarrow> byte list"
  fs_dir_datetime :: "'p \<Rightarrow> u32"
  fs_file_datetime :: "'p \<Rightarrow> u32"
  fs_attributes :: "'p \<Rightarrow> u32"
  fs_file_size :: "'p \<Rightarrow> u64"
  fs_open_read :: "'p \<Rightarrow> byte list option"

section \<open>ACFArchiver::Create\<close>

record 'p enum_state =
  processedPaths :: "'p set"
  filesToProcess :: "'p list"
  dirsToProcess :: "'p list"

text \<open>The loop over \<^verbatim>\<open>fs::recursive_directory_iterator(inputPath)\<close>.\<close>

fun walk_directory :: "'p directory_entry list \<Rightarrow> 'p enum_state \<Rightarrow> 'p enum_state" where
  "walk_directory [] st = st"
| "walk_directory (dir_entry # rest) st =
     (if de_path dir_entry \<in> processedPaths st then walk_directory rest st
      else
        let st1 = (if de_is_directory dir_entry
                   then st\<lparr>dirsToProcess := dirsToProcess st @ [de_path dir_entry]\<rparr>
                   else if de_is_regular_file dir_entry
                   then st\<lparr>filesToProcess := filesToProcess st @ [de_path dir_entry]\<rparr>
                   else st)
        in walk_directory rest
             (st1\<lparr>processedPaths := insert (de_path dir_entry) (processedPaths st1)\<rparr>))"

text \<open>The loop over \<^verbatim>\<open>inputPaths\<close>.\<close>

fun collect_inputs :: "'p filesystem \<Rightarrow> 'p list \<Rightarrow> 'p enum_state \<Rightarrow> 'p enum_state" where
  "collect_inputs fs [] st = st"
| "collect_inputs fs (inputPath # rest) st =
     (if \<not> fs_exists fs inputPath \<or> inputPath \<in> processedPaths st
      then collect_inputs fs rest st
      else if fs_is_directory fs inputPath
      then
        let st1 = (if inputPath \<notin> processedPaths st
                   then st\<lparr>dirsToProcess := dirsToProcess st @ [inputPath],
                           processedPaths := insert inputPath (processedPaths st)\<rparr>
                   else st)
        in collect_inputs fs rest
             (walk_directory (fs_recursive_directory_iterator fs inputPath) st1)
      else if fs_is_regular_file fs inputPath
      then collect_inputs fs rest
             (st\<lparr>filesToProcess := filesToProcess st @ [inputPath],
                 processedPaths := insert inputPath (processedPaths st)\<rparr>)
      else collect_inputs fs rest st)"

text \<open>The body of the loop over the sorted directories: descriptor and stored path.\<close>

definition dir_internal_path :: "'p filesystem \<Rightarrow> 'p \<Rightarrow> 'p \<Rightarrow> 'p \<Rightarrow> byte list" where
  "dir_internal_path fs internalBasePath basePath dirPath =
     (let internalPath = fs_internal_path fs internalBasePath basePath dirPath
      in if internalPath \<noteq> [] \<and> last internalPath \<noteq> 0x5C then internalPath @ [0x5C]
         else internalPath)"

definition make_dir_entry :: "'p filesystem \<Rightarrow> 'p \<Rightarrow> 'p \<Rightarrow> 'p \<Rightarrow> ACFEntryData \<times> byte list" where
  "make_dir_entry fs internalBasePath basePath dirPath =
     (let internalPath = dir_internal_path fs internalBasePath basePath dirPath
      in (zero_entry\<lparr>entry_type := EntryType_Directory,
                      filedatetime := fs_dir_datetime fs dirPath,
                      fileattribute := ucast (fs_attributes fs dirPath),
                      pathLength := of_nat (length internalPath)\<rparr>,
          internalPath))"

text \<open>
  The reading loop \<^verbatim>\<open>for (;;)\<close> over a source file: blocks of \<open>inBuffSize\<close> bytes until a
  read returns nothing. The state is the running checksum and the input handed to the
  compressor so far.
\<close>

function read_source :: "nat \<Rightarrow> byte list \<Rightarrow> u32 \<times> byte list \<Rightarrow> u32 \<times> byte list" where
  "read_source inBuffSize content (crc, fed) =
     (let block = take inBuffSize content
      in if length block = 0 then (crc, fed)
         else read_source inBuffSize (drop inBuffSize content)
                (crc32_update crc block, fed @ block))"
  by pat_completeness auto
termination
  by (relation "measure (\<lambda>(n, content, st). length content)") auto

text \<open>
  The loop over the sorted files. The state is the archive body written after the file
  header and the central directory so far; the position of the output stream is the
  header size plus the length of the body. A source file that does not open is skipped.
\<close>

fun add_files ::
  "zstd_platform \<Rightarrow> 'p filesystem \<Rightarrow> 'p \<Rightarrow> 'p \<Rightarrow> 'p list
     \<Rightarrow> byte list \<times> (ACFEntryData \<times> byte list) list
     \<Rightarrow> error + byte list \<times> (ACFEntryData \<times> byte list) list" where
  "add_files pf fs internalBasePath basePath [] st = Inr st"
| "add_files pf fs internalBasePath basePath (filePath # rest) (body, centralDirectory) =
     (let internalPath = fs_internal_path fs internalBasePath basePath filePath;
          fileEntry = zero_entry\<lparr>entry_type := EntryType_File,
                        originalSize := fs_file_size fs filePath,
                        dataOffset := of_nat (sizeof_ACFHeader + length body),
                        filedatetime := fs_file_datetime fs filePath,
                        fileattribute := ucast (fs_attributes fs filePath),
                        pathLength := of_nat (length internalPath)\<rparr>
      in case fs_open_read fs filePath of
           None \<Rightarrow> add_files pf fs internalBasePath basePath rest (body, centralDirectory)
         | Some content \<Rightarrow>
             let (crc, fed) = read_source (ZSTD_CStreamInSize pf) content (0, [])
             in (case zstd_compress pf fed of
                   None \<Rightarrow> Inl CompressorError
                 | Some compressed \<Rightarrow>
                     add_files pf fs internalBasePath basePath rest
                       (body @ compressed,
                        centralDirectory @
                          [(fileEntry\<lparr>entry_crc32 := crc,
                                      compressedSize := of_nat (length compressed)\<rparr>,
                            internalPath)])))"

text \<open>The serialisation loop: each descriptor followed by its path.\<close>

fun centralDirBuffer :: "(ACFEntryData \<times> byte list) list \<Rightarrow> byte list" where
  "centralDirBuffer [] = []"
| "centralDirBuffer ((entry, path) # rest) = entry_bytes entry @ path @ centralDirBuffer rest"

text \<open>The central directory and the body that \<^verbatim>\<open>Create\<close> builds before it writes them.\<close>

definition Create_entries ::
  "zstd_platform \<Rightarrow> 'p::linorder filesystem \<Rightarrow> 'p list \<Rightarrow> 'p \<Rightarrow> 'p
     \<Rightarrow> error + byte list \<times> (ACFEntryData \<times> byte list) list" where
  "Create_entries pf fs inputPaths basePath internalBasePath =
     (let st = collect_inputs fs inputPaths
                 \<lparr>processedPaths = {}, filesToProcess = [], dirsToProcess = []\<rparr>;
          dirs = sort (dirsToProcess st);
          files = sort (filesToProcess st)
      in add_files pf fs internalBasePath basePath files
           ([], map (make_dir_entry fs internalBasePath basePath) dirs))"

text \<open>
  The result is the content of the archive file: the final header, written over the
  placeholder, the body and the central directory.
\<close>

definition Create ::
  "zstd_platform \<Rightarrow> 'p::linorder filesystem \<Rightarrow> 'p \<Rightarrow> 'p list \<Rightarrow> 'p \<Rightarrow> 'p \<Rightarrow> error + byte list" where
  "Create pf fs archivePath inputPaths basePath internalBasePath =
     (if \<not> fs_can_create fs archivePath then Inl IoError
      else
        (case Create_entries pf fs inputPaths basePath internalBasePath of
           Inl e \<Rightarrow> Inl e
         | Inr (body, centralDirectory) \<Rightarrow>
             let buf = centralDirBuffer centralDirectory;
                 header = default_header
                   \<lparr>centralDirOffset := of_nat (sizeof_ACFHeader + length body),
                    entryCount := of_nat (length centralDirectory),
                    centralDirCRC32 := crc32 buf\<rparr>
             in Inr (header_bytes header @ body @ buf)))"

section \<open>Archives as the reader expects them, and example inputs\<close>

text \<open>
  The two overrun checks of the parsing loop of \<^verbatim>\<open>List\<close>, for the buffer that is left:
  fewer than 36 bytes, or fewer bytes after the descriptor than its \<^verbatim>\<open>pathLength\<close>.
\<close>

definition overruns :: "byte list \<Rightarrow> bool" where
  "overruns buf \<longleftrightarrow>
     length buf < sizeof_ACFEntryData \<or>
     length (drop sizeof_ACFEntryData buf)
       < unat (pathLength (entry_of_bytes (take sizeof_ACFEntryData buf)))"

text \<open>Every descriptor of the list states the length of the path stored after it.\<close>

definition lengths_ok :: "(ACFEntryData \<times> byte list) list \<Rightarrow> bool" where
  "lengths_ok es \<longleftrightarrow> list_all (\<lambda>(e, p). unat (pathLength e) = length p) es"

text \<open>
  A stand-in for Zstandard in examples: the stored codec, which emits its input. Its
  buffers hold four bytes and every allocation succeeds.
\<close>

definition stored_platform :: zstd_platform where
  "stored_platform = \<lparr>zstd_compress = Some, zstd_decompress = Some,
     ZSTD_CStreamInSize = 4, ZSTD_DStreamInSize = 4,
     can_reserve_entries = (\<lambda>n. True), can_reserve_bytes = (\<lambda>n. True)\<rparr>"

text \<open>A file system with nothing in it, where the archive can be created.\<close>

definition empty_fs :: "string list filesystem" where
  "empty_fs = \<lparr>fs_can_create = (\<lambda>p. True), fs_exists = (\<lambda>p. False),
     fs_is_directory = (\<lambda>p. False), fs_is_regular_file = (\<lambda>p. False),
     fs_recursive_directory_iterator = (\<lambda>p. []), fs_internal_path = (\<lambda>i b p. []),
     fs_dir_datetime = (\<lambda>p. 0), fs_file_datetime = (\<lambda>p. 0), fs_attributes = (\<lambda>p. 0),
     fs_file_size = (\<lambda>p. 0), fs_open_read = (\<lambda>p. None)\<rparr>"

text \<open>The header of an archive with no body that declares \<open>n\<close> entries.\<close>

definition bare_header :: "u64 \<Rightarrow> ACFHeader" where
  "bare_header n = default_header\<lparr>centralDirOffset := 32, entryCount := n\<rparr>"

definition one_entry_cd :: "(ACFEntryData \<times> byte list) list" where
  "one_entry_cd = [(zero_entry\<lparr>pathLength := 1\<rparr>, [0x61])]"

definition short_archive_header :: ACFHeader where
  "short_archive_header = (bare_header 2)\<lparr>centralDirCRC32 := crc32 (centralDirBuffer one_entry_cd)\<rparr>"

text \<open>An open stream on the bytes \<open>d\<close> at position \<open>n\<close>, with no failure so far.\<close>

definition stream_at :: "byte list \<Rightarrow> nat \<Rightarrow> ifstream" where
  "stream_at d n = \<lparr>str_data = d, str_pos = n, str_fail = False\<rparr>"

text \<open>
  An archive with two entries of the same path \<open>a\<close>: the first has the body byte 1 as its
  data, the second the body byte 2.
\<close>

definition dup_first :: ACFEntryData where
  "dup_first = zero_entry\<lparr>compressedSize := 1, dataOffset := 32, entry_crc32 := crc32 [1],
     pathLength := 1\<rparr>"

definition dup_second :: ACFEntryData where
  "dup_second = zero_entry\<lparr>compressedSize := 1, dataOffset := 33, entry_crc32 := crc32 [2],
     pathLength := 1\<rparr>"

definition dup_header :: ACFHeader where
  "dup_header = default_header\<lparr>centralDirOffset := 34, entryCount := 2\<rparr>"

definition dup_archive :: "byte list" where
  "dup_archive = header_bytes dup_header @ [1, 2]
     @ centralDirBuffer ([] @ (dup_first, [0x61]) # [(dup_second, [0x61])]) @ []"

text \<open>An archive with the single Directory entry \<open>d\\<close> and no body.\<close>

definition dir_only_cd :: "(ACFEntryData \<times> byte list) list" where
  "dir_only_cd = [(zero_entry\<lparr>entry_type := EntryType_Directory, pathLength := 2\<rparr>, [0x64, 0x5C])]"

text \<open>
  Example paths are lists of file names, compared name by name as \<^verbatim>\<open>fs::path\<close> compares
  its elements. \<open>path_bytes\<close> joins the names with the preferred separator \<open>\\<close> (0x5C).
\<close>

fun path_bytes :: "string list \<Rightarrow> byte list" where
  "path_bytes [] = []"
| "path_bytes [name] = map of_char name"
| "path_bytes (name # rest) = map of_char name @ 0x5C # path_bytes rest"

text \<open>
  A file system with the directory \<open>a\<close>, the file \<open>a\b\<close> of five bytes in it, and the empty
  file \<open>a.b\<close> beside it. Every file can be read; internal paths are relative to an empty
  base.
\<close>

definition sample_fs :: "string list filesystem" where
  "sample_fs = \<lparr>fs_can_create = (\<lambda>p. True),
     fs_exists = (\<lambda>p. p = [''a''] \<or> p = [''a'', ''b''] \<or> p = [''a.b'']),
     fs_is_directory = (\<lambda>p. p = [''a'']),
     fs_is_regular_file = (\<lambda>p. p = [''a'', ''b''] \<or> p = [''a.b'']),
     fs_recursive_directory_iterator = (\<lambda>p. if p = [''a'']
        then [\<lparr>de_path = [''a'', ''b''], de_is_directory = False, de_is_regular_file = True\<rparr>]
        else []),
     fs_internal_path = (\<lambda>i b p. path_bytes p),
     fs_dir_datetime = (\<lambda>p. 0), fs_file_datetime = (\<lambda>p. 0), fs_attributes = (\<lambda>p. 0),
     fs_file_size = (\<lambda>p. if p = [''a'', ''b''] then 5 else 0),
     fs_open_read = (\<lambda>p. if p = [''a'', ''b''] then Some [1, 2, 3, 4, 5]
        else if p = [''a.b''] then Some [] else None)\<rparr>"

definition sample_inputs :: "string list list" where
  "sample_inputs = [[''a.b''], [''a'']]"


text \<open>
  A file system with the single empty file \<open>f\<close>, stored under an internal base path that
  makes its internal path 65536 bytes long.
\<close>

definition long_fs :: "string list filesystem" where
  "long_fs = \<lparr>fs_can_create = (\<lambda>p. True),
     fs_exists = (\<lambda>p. p = [''f'']),
     fs_is_directory = (\<lambda>p. False),
     fs_is_regular_file = (\<lambda>p. p = [''f'']),
     fs_recursive_directory_iterator = (\<lambda>p. []),
     fs_internal_path = (\<lambda>i b p. replicate 65534 0x61 @ 0x5C # path_bytes p),
     fs_dir_datetime = (\<lambda>p. 0), fs_file_datetime = (\<lambda>p. 0), fs_attributes = (\<lambda>p. 0),
     fs_file_size = (\<lambda>p. 0),
     fs_open_read = (\<lambda>p. if p = [''f''] then Some [] else None)\<rparr>"


text \<open>The paths \<^verbatim>\<open>Create\<close> collects from its inputs, before sorting.\<close>

definition collected :: "'p filesystem \<Rightarrow> 'p list \<Rightarrow> 'p enum_state" where
  "collected fs inputPaths =
     collect_inputs fs inputPaths \<lparr>processedPaths = {}, filesToProcess = [], dirsToProcess = []\<rparr>"

text \<open>The central directory and the archive that \<^verbatim>\<open>Create\<close> makes of the sample inputs.\<close>

definition sample_cd :: "(ACFEntryData \<times> byte list) list" where
  "sample_cd =
     [(zero_entry\<lparr>entry_type := EntryType_Directory, pathLength := 2\<rparr>, [0x61, 0x5C]),
      (zero_entry\<lparr>originalSize := 5, compressedSize := 5, dataOffset := 32,
                   entry_crc32 := crc32 [1, 2, 3, 4, 5], pathLength := 3\<rparr>, [0x61, 0x5C, 0x62]),
      (zero_entry\<lparr>dataOffset := 37, pathLength := 3\<rparr>, [0x61, 0x2E, 0x62])]"

definition sample_archive :: "byte list" where
  "sample_archive =
     header_bytes (default_header\<lparr>centralDirOffset := 37, entryCount := 3,
                                   centralDirCRC32 := crc32 (centralDirBuffer sample_cd)\<rparr>)
       @ [1, 2, 3, 4, 5] @ centralDirBuffer sample_cd"

text \<open>The entry and the archive that \<^verbatim>\<open>Create\<close> makes of the file with the long path.\<close>

definition long_path :: "byte list" where
  "long_path = replicate 65534 0x61 @ [0x5C, 0x66]"

definition long_entry :: ACFEntryData where
  "long_entry = zero_entry\<lparr>dataOffset := 32, pathLength := 0\<rparr>"

definition long_archive :: "byte list" where
  "long_archive =
     header_bytes (default_header\<lparr>centralDirOffset := 32, entryCount := 1,
                      centralDirCRC32 := crc32 (centralDirBuffer [(long_entry, long_path)])\<rparr>)
       @ [] @ centralDirBuffer [(long_entry, long_path)]"

text \<open>Every collected path is recorded as processed, and none is collected twice.\<close>

definition enum_inv :: "'p enum_state \<Rightarrow> bool" where
  "enum_inv st \<longleftrightarrow>
     distinct (filesToProcess st) \<and> distinct (dirsToProcess st) \<and>
     set (filesToProcess st) \<subseteq> processedPaths st \<and>
     set (dirsToProcess st) \<subseteq> processedPaths st"

text \<open>The sample archive with its last byte, the end of the last stored path, changed.\<close>

definition corrupt_archive :: "byte list" where
  "corrupt_archive = butlast sample_archive @ [0x63]"

definition sample_header :: ACFHeader where
  "sample_header = default_header\<lparr>centralDirOffset := 37, entryCount := 3,
     centralDirCRC32 := crc32 (centralDirBuffer sample_cd)\<rparr>"


text \<open>
  An archive whose only descriptor declares a path of three bytes, of which the file
  holds two, \<open>ab\<close>; the stored CRC32 is that of the central directory as it is.
\<close>

definition cut_entry :: ACFEntryData where
  "cut_entry = zero_entry\<lparr>pathLength := 3\<rparr>"

definition cut_header :: ACFHeader where
  "cut_header = (bare_header 1)\<lparr>centralDirCRC32 := crc32 (entry_bytes cut_entry @ [0x61, 0x62])\<rparr>"

definition cut_archive :: "byte list" where
  "cut_archive = header_bytes cut_header @ [] @ entry_bytes cut_entry @ [0x61, 0x62]"

section \<open>CRC32: the incremental law\<close>

lemma crc32_loop_append: "crc32_loop crc (a @ b) = crc32_loop (crc32_loop crc a) b"
  by (induction a arbitrary: crc) simp_all

lemma crc32_update_append:
  "crc32_update crc (a @ b) = crc32_update (crc32_update crc a) b"
  by (simp add: crc32_update_def crc32_loop_append)

lemma crc32_update_Nil: "crc32_update crc [] = crc"
  by (simp add: crc32_update_def)

lemma crc32_Nil: "crc32 [] = 0"
  by (simp add: crc32_def crc32_update_Nil)

text \<open>
  Claim C5. For all byte strings \<open>a\<close> and \<open>b\<close>, the checksum of the concatenation is the
  checksum of \<open>a\<close> continued over \<open>b\<close>: \<open>crc32 (a @ b) = crc32_update (crc32 a) b\<close>,
  where \<open>crc32 x\<close> is \<open>crc32_update 0 x\<close>.
\<close>

theorem crc32_incremental:
  "crc32 (a @ b) = crc32_update (crc32 a) b \<and> crc32 a = crc32_update 0 a"
  by (simp add: crc32_def crc32_update_append)

section \<open>Serialisation lemmas\<close>

lemma length_le_bytes: "length (le_bytes n w) = n"
  by (induction n arbitrary: w) simp_all

lemma le_word_le_bytes: "le_word (le_bytes n w) = take_bit (8 * n) w"
proof (induction n arbitrary: w)
  case 0
  show ?case by simp
next
  case (Suc n)
  have "(ucast (ucast w :: byte) :: 'a word) OR push_bit 8 (take_bit (8 * n) (drop_bit 8 w))
      = take_bit (8 * Suc n) w"
    by (rule bit_eqI) (auto simp add: bit_simps)
  with Suc show ?case by simp
qed

lemma le_word_le_bytes_id:
  "LENGTH('a) \<le> 8 * n \<Longrightarrow> le_word (le_bytes n (w :: 'a::len word)) = w"
  by (simp only: le_word_le_bytes take_bit_word_eq_self)

lemma length_header_bytes: "length (header_bytes h) = 32"
  by (simp add: header_bytes_def length_le_bytes)

lemma length_entry_bytes: "length (entry_bytes e) = 36"
  by (simp add: entry_bytes_def length_le_bytes)

lemma header_of_bytes_header_bytes: "header_of_bytes (header_bytes h @ rest) = h"
  by (simp add: header_of_bytes_def header_bytes_def length_le_bytes le_word_le_bytes_id)

lemma entry_of_bytes_entry_bytes: "entry_of_bytes (entry_bytes e @ rest) = e"
  by (simp add: entry_of_bytes_def entry_bytes_def length_le_bytes le_word_le_bytes_id)

section \<open>Stream lemmas\<close>

lemma istream_read_exact:
  "istream_read (length x) buf \<lparr>str_data = pre @ x @ post, str_pos = length pre, str_fail = False\<rparr>
     = (x @ drop (length x) buf,
        \<lparr>str_data = pre @ x @ post, str_pos = length pre + length x, str_fail = False\<rparr>)"
  by (simp add: istream_read_def Let_def)

lemma read_header_full:
  "istream_read sizeof_ACFHeader (header_bytes default_header) (ifstream_open (header_bytes h @ rest))
     = (header_bytes h,
        \<lparr>str_data = header_bytes h @ rest, str_pos = 32, str_fail = False\<rparr>)"
  by (simp add: istream_read_def ifstream_open_def sizeof_ACFHeader_def length_header_bytes Let_def)

section \<open>The file header and the empty archive\<close>

lemma Create_entries_Nil:
  "Create_entries pf fs [] basePath internalBasePath = Inr ([], [])"
  by (simp add: Create_entries_def)

text \<open>
  Claim C2, as the structure declares it. The serialised file header occupies exactly 32 bytes
  (4 + 4 + 8 + 8 + 4 + 4); \<^verbatim>\<open>Create\<close> applied to an empty input list, when the archive file
  can be created, writes exactly that header with entryCount 0, centralDirOffset 32 and
  centralDirCRC32 0; the central directory after it is empty, and 0 is the CRC32 of the
  empty byte string.
\<close>

theorem Create_empty_inputs:
  "length (header_bytes h) = 32 \<and>
   (fs_can_create fs archivePath \<longrightarrow>
      Create pf fs archivePath [] basePath internalBasePath
        = Inr (header_bytes (default_header\<lparr>centralDirOffset := 32, entryCount := 0,
                                            centralDirCRC32 := 0\<rparr>))) \<and>
   drop 32 (header_bytes h) = [] \<and> crc32 [] = 0"
  by (simp add: Create_def Create_entries_Nil length_header_bytes crc32_Nil sizeof_ACFHeader_def)

theorem Create_empty_inputs_witness:
  "fs_can_create empty_fs [] \<and>
   Create stored_platform empty_fs [] [] [] []
     = Inr (header_bytes (default_header\<lparr>centralDirOffset := 32, entryCount := 0,
                                         centralDirCRC32 := 0\<rparr>))"
  using Create_empty_inputs [of default_header empty_fs "[]" stored_platform "[]" "[]"]
  by (simp add: empty_fs_def)

text \<open>
  The claim as it is written fails: the header is not 36 bytes long, and the archive made
  from no inputs on the empty file system has its central directory at offset 32.
\<close>

theorem header_size_counterexample:
  "length (header_bytes default_header) \<noteq> 36 \<and>
   Create stored_platform empty_fs [] [] [] []
     \<noteq> Inr (header_bytes (default_header\<lparr>centralDirOffset := 36, entryCount := 0,
                                            centralDirCRC32 := 0\<rparr>)) \<and>
   (case Create stored_platform empty_fs [] [] [] [] of
      Inl e \<Rightarrow> False
    | Inr archive \<Rightarrow> centralDirOffset (header_of_bytes archive) = 32)"
proof -
  let ?h32 = "default_header\<lparr>centralDirOffset := 32, entryCount := 0, centralDirCRC32 := 0\<rparr>"
  let ?h36 = "default_header\<lparr>centralDirOffset := 36, entryCount := 0, centralDirCRC32 := 0\<rparr>"
  have c: "Create stored_platform empty_fs [] [] [] [] = Inr (header_bytes ?h32)"
    by (simp add: Create_def Create_entries_Nil crc32_Nil sizeof_ACFHeader_def empty_fs_def)
  have "header_bytes ?h32 \<noteq> header_bytes ?h36"
  proof
    assume "header_bytes ?h32 = header_bytes ?h36"
    then have "header_of_bytes (header_bytes ?h32 @ []) = header_of_bytes (header_bytes ?h36 @ [])"
      by simp
    then have "?h32 = ?h36"
      by (simp only: header_of_bytes_header_bytes)
    then show False
      by (simp add: default_header_def)
  qed
  moreover have "header_of_bytes (header_bytes ?h32) = ?h32"
    using header_of_bytes_header_bytes [of ?h32 "[]"] by simp
  ultimately show ?thesis
    by (simp add: c length_header_bytes default_header_def)
qed

section \<open>Listing an archive\<close>

lemma header_of_bytes_header_bytes_only: "header_of_bytes (header_bytes h) = h"
  using header_of_bytes_header_bytes [of h "[]"] by simp

lemma List_layout:
  assumes "magic h = ACF_MAGIC"
    and "unat (centralDirOffset h) = 32 + length body"
    and "32 + length body < 2 ^ 63"
  shows "List pf (Some (header_bytes h @ body @ cd)) =
           (if crc32 cd \<noteq> centralDirCRC32 h then Inl BadArchive
            else if \<not> can_reserve_entries pf (unat (entryCount h)) then Inl AllocFailure
            else Inr (parse_entries (unat (entryCount h)) cd))"
proof -
  have rd: "istream_read sizeof_ACFHeader (header_bytes default_header) (ifstream_open (header_bytes h @ body @ cd))
     = (header_bytes h,
        \<lparr>str_data = header_bytes h @ body @ cd, str_pos = 32, str_fail = False\<rparr>)"
    by (rule read_header_full)
  show ?thesis
    unfolding List_def option.case rd prod.case Let_def header_of_bytes_header_bytes_only
    using assms
    by (simp add: seekg_def seekg_end_def istream_read_def length_header_bytes)
qed

lemma parse_entries_overrun: "overruns buf \<Longrightarrow> parse_entries (Suc k) buf = []"
  by (auto simp add: overruns_def Let_def)

lemma parse_entries_step:
  assumes "unat (pathLength e) = length p"
  shows "parse_entries (Suc n) (entry_bytes e @ p @ rest) = (e, p) # parse_entries n rest"
proof -
  have t: "take sizeof_ACFEntryData (entry_bytes e @ p @ rest) = entry_bytes e"
    by (simp add: sizeof_ACFEntryData_def length_entry_bytes)
  have d: "drop sizeof_ACFEntryData (entry_bytes e @ p @ rest) = p @ rest"
    by (simp add: sizeof_ACFEntryData_def length_entry_bytes)
  have n: "\<not> length (entry_bytes e @ p @ rest) < sizeof_ACFEntryData"
    by (simp add: sizeof_ACFEntryData_def length_entry_bytes)
  have eb: "entry_of_bytes (entry_bytes e) = e"
    using entry_of_bytes_entry_bytes [of e "[]"] by simp
  show ?thesis
    unfolding parse_entries.simps t d Let_def eb
    using n assms by simp
qed

lemma parse_entries_serialised:
  "lengths_ok es \<Longrightarrow>
     parse_entries (length es + k) (centralDirBuffer es @ tail) = es @ parse_entries k tail"
proof (induction es)
  case Nil
  show ?case by simp
next
  case (Cons a es)
  obtain e p where a: "a = (e, p)" by (cases a)
  from Cons.prems a have l: "unat (pathLength e) = length p" and r: "lengths_ok es"
    by (simp_all add: lengths_ok_def)
  show ?case
    using Cons.IH [OF r] parse_entries_step [OF l, of "length es + k" "centralDirBuffer es @ tail"]
    by (simp add: a)
qed

text \<open>
  Claim C3, as the code decides it. Take an archive with the right magic whose central
  directory starts where the header says and has the stored CRC32, and whose entry
  vector can be reserved. When the central directory holds the well-formed entries \<open>es\<close>,
  fewer than the declared \<^verbatim>\<open>entryCount\<close>, followed by bytes at which the next descriptor or
  its path would run past the end of the buffer, \<^verbatim>\<open>List\<close> leaves its loop there and
  returns \<open>es\<close>, the entries parsed before the overrun; it raises no error.
\<close>

theorem List_short_central_directory:
  assumes "magic h = ACF_MAGIC"
    and "unat (centralDirOffset h) = 32 + length body"
    and "32 + length body < 2 ^ 63"
    and "centralDirCRC32 h = crc32 (centralDirBuffer es @ tail)"
    and "can_reserve_entries pf (unat (entryCount h))"
    and "lengths_ok es"
    and "length es < unat (entryCount h)"
    and "overruns tail"
  shows "List pf (Some (header_bytes h @ body @ centralDirBuffer es @ tail)) = Inr es"
proof -
  from assms(7) obtain k where k: "unat (entryCount h) = length es + Suc k"
    by (auto simp add: less_iff_Suc_add)
  have "parse_entries (length es + Suc k) (centralDirBuffer es @ tail) = es @ parse_entries (Suc k) tail"
    by (rule parse_entries_serialised [OF assms(6)])
  also have "parse_entries (Suc k) tail = []"
    by (rule parse_entries_overrun [OF assms(8)])
  finally have p: "parse_entries (unat (entryCount h)) (centralDirBuffer es @ tail) = es"
    by (simp only: k append_Nil2)
  have "List pf (Some (header_bytes h @ body @ centralDirBuffer es @ tail)) =
           (if crc32 (centralDirBuffer es @ tail) \<noteq> centralDirCRC32 h then Inl BadArchive
            else if \<not> can_reserve_entries pf (unat (entryCount h)) then Inl AllocFailure
            else Inr (parse_entries (unat (entryCount h)) (centralDirBuffer es @ tail)))"
    by (rule List_layout [OF assms(1-3)])
  also have "\<dots> = Inr es"
    using assms(5) by (simp only: p assms(4) simp_thms if_False if_True)
  finally show ?thesis .
qed

theorem List_short_central_directory_witness:
  "magic short_archive_header = ACF_MAGIC \<and>
   unat (centralDirOffset short_archive_header) = 32 + length ([] :: byte list) \<and>
   centralDirCRC32 short_archive_header = crc32 (centralDirBuffer one_entry_cd @ []) \<and>
   can_reserve_entries stored_platform (unat (entryCount short_archive_header)) \<and>
   lengths_ok one_entry_cd \<and>
   length one_entry_cd < unat (entryCount short_archive_header) \<and>
   overruns [] \<and>
   List stored_platform
     (Some (header_bytes short_archive_header @ [] @ centralDirBuffer one_entry_cd @ []))
     = Inr one_entry_cd"
proof -
  have 1: "magic short_archive_header = ACF_MAGIC"
    by (simp add: short_archive_header_def bare_header_def default_header_def)
  have 2: "unat (centralDirOffset short_archive_header) = 32 + length ([] :: byte list)"
    by (simp add: short_archive_header_def bare_header_def default_header_def)
  have 3: "32 + length ([] :: byte list) < 2 ^ 63"
    by simp
  have 4: "centralDirCRC32 short_archive_header = crc32 (centralDirBuffer one_entry_cd @ [])"
    by (simp add: short_archive_header_def)
  have 5: "can_reserve_entries stored_platform (unat (entryCount short_archive_header))"
    by (simp add: stored_platform_def)
  have 6: "lengths_ok one_entry_cd"
    by (simp add: lengths_ok_def one_entry_cd_def)
  have 7: "length one_entry_cd < unat (entryCount short_archive_header)"
    by (simp add: one_entry_cd_def short_archive_header_def bare_header_def default_header_def)
  have 8: "overruns []"
    by (simp add: overruns_def sizeof_ACFEntryData_def)
  from List_short_central_directory [OF 1 2 3 4 5 6 7 8] 1 2 4 5 6 7 8
  show ?thesis by blast
qed

text \<open>
  The claim as it is written fails: a header that declares one entry, followed by an empty
  central directory with the matching CRC32 of 0, is listed as the empty sequence.
\<close>

theorem List_overrun_counterexample:
  "entryCount (bare_header 1) = 1 \<and>
   overruns (drop 32 (header_bytes (bare_header 1))) \<and>
   List stored_platform (Some (header_bytes (bare_header 1))) = Inr [] \<and>
   List stored_platform (Some (header_bytes (bare_header 1))) \<noteq> Inl BadArchive"
proof -
  have l: "List stored_platform (Some (header_bytes (bare_header 1) @ [] @ []))
             = Inr (parse_entries (unat (entryCount (bare_header 1))) [])"
    by (subst List_layout)
       (simp_all add: bare_header_def default_header_def crc32_Nil stored_platform_def)
  have "parse_entries (unat (entryCount (bare_header 1))) [] = []"
    by (simp add: bare_header_def default_header_def sizeof_ACFEntryData_def)
  with l show ?thesis
    by (simp add: bare_header_def default_header_def overruns_def length_header_bytes
        sizeof_ACFEntryData_def)
qed

section \<open>Extracting one entry\<close>

lemma istream_read_at:
  "istream_read (length x) (replicate (length x) 0) (stream_at (pre @ x @ post) (length pre))
     = (x, stream_at (pre @ x @ post) (length pre + length x))"
  by (simp add: stream_at_def istream_read_exact)

lemma centralDirBuffer_append:
  "centralDirBuffer (es1 @ es2) = centralDirBuffer es1 @ centralDirBuffer es2"
  by (induction es1) auto

lemma scan_entries_step:
  assumes "unat (pathLength e) = length p"
  shows "scan_entries (Suc n) (stream_at (pre @ entry_bytes e @ p @ post) (length pre)) name =
     (if p = name
      then Inr (Some (e, stream_at (pre @ entry_bytes e @ p @ post) (length pre + 36 + length p)))
      else scan_entries n (stream_at (pre @ entry_bytes e @ p @ post) (length pre + 36 + length p)) name)"
proof -
  have r1: "istream_read sizeof_ACFEntryData (replicate sizeof_ACFEntryData 0)
              (stream_at (pre @ entry_bytes e @ p @ post) (length pre))
            = (entry_bytes e, stream_at (pre @ entry_bytes e @ p @ post) (length pre + 36))"
    using istream_read_at [of "entry_bytes e" pre "p @ post"]
    by (simp add: sizeof_ACFEntryData_def length_entry_bytes)
  have r2: "istream_read (length p) (replicate (length p) 0)
              (stream_at (pre @ entry_bytes e @ p @ post) (length pre + 36))
            = (p, stream_at (pre @ entry_bytes e @ p @ post) (length pre + 36 + length p))"
    using istream_read_at [of p "pre @ entry_bytes e" post]
    by (simp add: length_entry_bytes)
  have eb: "entry_of_bytes (entry_bytes e) = e"
    using entry_of_bytes_entry_bytes [of e "[]"] by simp
  have nf: "\<not> str_fail (stream_at (pre @ entry_bytes e @ p @ post) (length pre + 36))"
    by (simp add: stream_at_def)
  show ?thesis
    unfolding scan_entries.simps r1 prod.case Let_def eb assms r2
    using nf by simp
qed

lemma scan_entries_skip:
  "lengths_ok es \<Longrightarrow> name \<notin> snd ` set es \<Longrightarrow>
     scan_entries (length es + k) (stream_at (pre @ centralDirBuffer es @ post) (length pre)) name
       = scan_entries k (stream_at (pre @ centralDirBuffer es @ post)
                           (length pre + length (centralDirBuffer es))) name"
proof (induction es arbitrary: pre)
  case Nil
  show ?case by simp
next
  case (Cons a es)
  obtain e p where a: "a = (e, p)" by (cases a)
  from Cons.prems a have l: "unat (pathLength e) = length p" and r: "lengths_ok es"
    and np: "p \<noteq> name" and nn: "name \<notin> snd ` set es"
    by (auto simp add: lengths_ok_def)
  have "scan_entries (Suc (length es + k))
          (stream_at (pre @ entry_bytes e @ p @ centralDirBuffer es @ post) (length pre)) name
        = scan_entries (length es + k)
          (stream_at (pre @ entry_bytes e @ p @ centralDirBuffer es @ post) (length pre + 36 + length p)) name"
    using scan_entries_step [OF l, of "length es + k" pre "centralDirBuffer es @ post" name] np
    by simp
  also have "\<dots> = scan_entries k
          (stream_at (pre @ entry_bytes e @ p @ centralDirBuffer es @ post)
             (length pre + 36 + length p + length (centralDirBuffer es))) name"
    using Cons.IH [OF r nn, of "pre @ entry_bytes e @ p"]
    by (simp add: length_entry_bytes add.assoc)
  finally show ?case
    by (simp add: a length_entry_bytes add.assoc)
qed

lemma ExtractData_layout:
  assumes "magic h = ACF_MAGIC"
    and "unat (centralDirOffset h) = 32 + length body"
    and "32 + length body < 2 ^ 63"
  shows "ExtractData pf (Some (header_bytes h @ body @ cd)) name =
           (case scan_entries (unat (entryCount h))
                   (stream_at (header_bytes h @ body @ cd) (32 + length body)) name of
              Inl e \<Rightarrow> Some (Inl e)
            | Inr None \<Rightarrow> Some (Inl NotFound)
            | Inr (Some (targetEntry, s3)) \<Rightarrow> extract_entry pf targetEntry s3)"
proof -
  have rd: "istream_read sizeof_ACFHeader (header_bytes default_header) (ifstream_open (header_bytes h @ body @ cd))
     = (header_bytes h,
        \<lparr>str_data = header_bytes h @ body @ cd, str_pos = 32, str_fail = False\<rparr>)"
    by (rule read_header_full)
  have sk: "seekg (unat (centralDirOffset h)) \<lparr>str_data = header_bytes h @ body @ cd, str_pos = 32, str_fail = False\<rparr>
      = stream_at (header_bytes h @ body @ cd) (32 + length body)"
    using assms(2,3) by (simp add: seekg_def stream_at_def)
  show ?thesis
    unfolding ExtractData_def option.case rd prod.case Let_def header_of_bytes_header_bytes_only sk
    using assms(1) by simp
qed

lemma ExtractData_first_match:
  assumes "magic h = ACF_MAGIC"
    and "unat (centralDirOffset h) = 32 + length body"
    and "32 + length body < 2 ^ 63"
    and "lengths_ok es1"
    and "unat (pathLength e) = length name"
    and "name \<notin> snd ` set es1"
    and "length es1 < unat (entryCount h)"
  shows "ExtractData pf
           (Some (header_bytes h @ body @ centralDirBuffer (es1 @ (e, name) # es2) @ tail)) name
         = extract_entry pf e
             (stream_at (header_bytes h @ body @ centralDirBuffer (es1 @ (e, name) # es2) @ tail)
                (32 + length body + length (centralDirBuffer (es1 @ [(e, name)]))))"
proof -
  let ?d = "header_bytes h @ body @ centralDirBuffer (es1 @ (e, name) # es2) @ tail"
  let ?post = "centralDirBuffer es2 @ tail"
  from assms(7) obtain k where k: "unat (entryCount h) = length es1 + Suc k"
    by (auto simp add: less_iff_Suc_add)
  have d: "?d = (header_bytes h @ body) @ centralDirBuffer es1 @ (entry_bytes e @ name @ ?post)"
    by (simp add: centralDirBuffer_append)
  have lp: "length (header_bytes h @ body) = 32 + length body"
    by (simp add: length_header_bytes)
  have "scan_entries (length es1 + Suc k) (stream_at ?d (32 + length body)) name
      = scan_entries (Suc k) (stream_at ?d (32 + length body + length (centralDirBuffer es1))) name"
    using scan_entries_skip [OF assms(4,6), of "Suc k" "header_bytes h @ body" "entry_bytes e @ name @ ?post"]
    unfolding d lp .
  also have "\<dots> = Inr (Some (e, stream_at ?d (32 + length body + length (centralDirBuffer es1) + 36 + length name)))"
    using scan_entries_step [OF assms(5), of k "header_bytes h @ body @ centralDirBuffer es1" ?post name]
    by (simp add: centralDirBuffer_append length_header_bytes add.assoc)
  finally have sc: "scan_entries (unat (entryCount h)) (stream_at ?d (32 + length body)) name
     = Inr (Some (e, stream_at ?d (32 + length body + length (centralDirBuffer (es1 @ [(e, name)])))))"
    by (simp add: k centralDirBuffer_append length_entry_bytes add.assoc)
  show ?thesis
    unfolding ExtractData_layout [OF assms(1-3), of pf "centralDirBuffer (es1 @ (e, name) # es2) @ tail" name] sc
    by simp
qed

lemma ExtractData_no_match:
  assumes "magic h = ACF_MAGIC"
    and "unat (centralDirOffset h) = 32 + length body"
    and "32 + length body < 2 ^ 63"
    and "lengths_ok es"
    and "name \<notin> snd ` set es"
    and "unat (entryCount h) = length es"
  shows "ExtractData pf (Some (header_bytes h @ body @ centralDirBuffer es @ tail)) name
         = Some (Inl NotFound)"
proof -
  let ?d = "header_bytes h @ body @ centralDirBuffer es @ tail"
  have lp: "length (header_bytes h @ body) = 32 + length body"
    by (simp add: length_header_bytes)
  have "scan_entries (length es + 0) (stream_at ?d (32 + length body)) name
      = scan_entries 0 (stream_at ?d (32 + length body + length (centralDirBuffer es))) name"
    using scan_entries_skip [OF assms(4,5), of 0 "header_bytes h @ body" tail]
    unfolding lp by simp
  then have sc: "scan_entries (unat (entryCount h)) (stream_at ?d (32 + length body)) name = Inr None"
    by (simp add: assms(6))
  show ?thesis
    unfolding ExtractData_layout [OF assms(1-3), of pf "centralDirBuffer es @ tail" name] sc
    by simp
qed

lemma extract_entry_not_NotFound: "extract_entry pf e s \<noteq> Some (Inl NotFound)"
  by (simp add: extract_entry_def Let_def split: option.split)

lemma extract_entry_Directory:
  "entry_type e \<noteq> EntryType_File \<Longrightarrow> extract_entry pf e s = Some (Inl InvalidOperation)"
  by (simp add: extract_entry_def)

lemma read_compressed_in_bounds:
  "0 < n \<Longrightarrow> pos + remaining \<le> length d \<Longrightarrow> length buf = n \<Longrightarrow>
     read_compressed n remaining buf (stream_at d pos) fed
       = Some (fed @ take remaining (drop pos d))"
proof (induction remaining arbitrary: buf pos fed rule: less_induct)
  case (less remaining)
  show ?case
  proof (cases "remaining = 0")
    case True
    then show ?thesis by (subst read_compressed.simps) simp
  next
    case False
    let ?t = "min n remaining"
    let ?got = "take ?t (drop pos d)"
    have lg: "length ?got = ?t"
      using less.prems by simp
    have rd: "istream_read ?t buf (stream_at d pos)
               = (?got @ drop ?t buf, stream_at d (pos + ?t))"
      using lg by (simp add: istream_read_def stream_at_def Let_def)
    have lb: "length (?got @ drop ?t buf) = n"
      using less.prems lg by simp
    have tk: "take ?t (?got @ drop ?t buf) = ?got"
      using lg by simp
    have lt: "remaining - ?t < remaining"
      using False less.prems(1) by simp
    have ib: "pos + ?t + (remaining - ?t) \<le> length d"
      using less.prems(2) by simp
    have "read_compressed n remaining buf (stream_at d pos) fed
          = read_compressed n (remaining - ?t) (?got @ drop ?t buf) (stream_at d (pos + ?t)) (fed @ ?got)"
      using less.prems(2) by (subst read_compressed.simps) (simp add: False rd Let_def min_absorb2)
    also have "\<dots> = Some ((fed @ ?got) @ take (remaining - ?t) (drop (pos + ?t) d))"
      by (rule less.IH [OF lt less.prems(1) ib lb])
    finally have st: "read_compressed n remaining buf (stream_at d pos) fed
          = Some ((fed @ ?got) @ take (remaining - ?t) (drop (pos + ?t) d))" .
    have "take remaining (drop pos d) = take (?t + (remaining - ?t)) (drop pos d)"
      by simp
    also have "\<dots> = take ?t (drop pos d) @ take (remaining - ?t) (drop ?t (drop pos d))"
      by (rule take_add)
    finally have "?got @ take (remaining - ?t) (drop (pos + ?t) d) = take remaining (drop pos d)"
      by (simp add: add.commute)
    with st show ?thesis by simp
  qed
qed

lemma read_compressed_returns:
  "0 < n \<Longrightarrow> \<exists>r. read_compressed n remaining buf s fed = Some r"
proof (induction remaining arbitrary: buf s fed rule: less_induct)
  case (less remaining)
  show ?case
  proof (cases "remaining = 0")
    case True
    then show ?thesis by (subst read_compressed.simps) simp
  next
    case False
    obtain buf1 s1 where rd: "istream_read (min n remaining) buf s = (buf1, s1)"
      by (cases "istream_read (min n remaining) buf s")
    have lt: "remaining - min n remaining < remaining"
      using False less.prems by simp
    from less.IH [OF lt less.prems, of buf1 s1 "fed @ take (min n remaining) buf1"]
    show ?thesis
      by (subst read_compressed.simps) (simp add: False rd Let_def)
  qed
qed

lemma extract_entry_returns:
  "0 < ZSTD_DStreamInSize pf \<Longrightarrow> extract_entry pf e s \<noteq> None"
proof -
  assume n: "0 < ZSTD_DStreamInSize pf"
  obtain r where "read_compressed (ZSTD_DStreamInSize pf) (unat (compressedSize e))
      (replicate (ZSTD_DStreamInSize pf) 0) (seekg (unat (dataOffset e)) s) [] = Some r"
    using read_compressed_returns [OF n] by blast
  then show ?thesis
    by (simp add: extract_entry_def Let_def split: option.split)
qed

lemma extract_entry_in_bounds:
  assumes "entry_type e = EntryType_File"
    and "can_reserve_bytes pf (unat (originalSize e))"
    and "0 < ZSTD_DStreamInSize pf"
    and "unat (dataOffset e) + unat (compressedSize e) \<le> length d"
    and "unat (dataOffset e) < 2 ^ 63"
  shows "extract_entry pf e (stream_at d pos) =
     (case zstd_decompress pf (take (unat (compressedSize e)) (drop (unat (dataOffset e)) d)) of
        None \<Rightarrow> Some (Inl CompressorError)
      | Some decompressedData \<Rightarrow>
          if crc32 decompressedData \<noteq> entry_crc32 e then Some (Inl CRCMismatch)
          else Some (Inr decompressedData))"
proof -
  have sk: "seekg (unat (dataOffset e)) (stream_at d pos) = stream_at d (unat (dataOffset e))"
    using assms(5) by (simp add: seekg_def stream_at_def)
  have rc: "read_compressed (ZSTD_DStreamInSize pf) (unat (compressedSize e))
      (replicate (ZSTD_DStreamInSize pf) 0) (stream_at d (unat (dataOffset e))) []
     = Some ([] @ take (unat (compressedSize e)) (drop (unat (dataOffset e)) d))"
    by (rule read_compressed_in_bounds [OF assms(3,4)]) simp
  show ?thesis
    unfolding extract_entry_def Let_def sk rc
    using assms(1,2) by simp
qed

text \<open>
  Claim C8, for archives with a complete central directory. Take an archive with the right
  magic whose central directory starts where the header says and holds the entries \<open>es\<close>,
  as many as \<^verbatim>\<open>entryCount\<close> declares, each with a path of the length its descriptor states.
  For every requested path, \<^verbatim>\<open>ExtractData\<close> fails with NotFound if and only if no entry of
  \<open>es\<close> has exactly that path, and it fails with InvalidOperation when the first entry
  with that path has type Directory.
\<close>

theorem ExtractData_NotFound_iff:
  assumes "magic h = ACF_MAGIC"
    and "unat (centralDirOffset h) = 32 + length body"
    and "32 + length body < 2 ^ 63"
    and "lengths_ok es"
    and "unat (entryCount h) = length es"
  shows "(ExtractData pf (Some (header_bytes h @ body @ centralDirBuffer es @ tail)) name
            = Some (Inl NotFound) \<longleftrightarrow> name \<notin> snd ` set es) \<and>
         (\<forall>es1 e es2. es = es1 @ (e, name) # es2 \<and> name \<notin> snd ` set es1 \<and>
              entry_type e = EntryType_Directory \<longrightarrow>
            ExtractData pf (Some (header_bytes h @ body @ centralDirBuffer es @ tail)) name
              = Some (Inl InvalidOperation))"
proof -
  let ?r = "ExtractData pf (Some (header_bytes h @ body @ centralDirBuffer es @ tail)) name"
  have first: "?r = extract_entry pf e
         (stream_at (header_bytes h @ body @ centralDirBuffer es @ tail)
            (32 + length body + length (centralDirBuffer (es1 @ [(e, name)]))))"
    if "es = es1 @ (e, name) # es2" and "name \<notin> snd ` set es1" for es1 e es2
  proof -
    from assms(4) that(1) have l1: "lengths_ok es1" and l2: "unat (pathLength e) = length name"
      by (simp_all add: lengths_ok_def)
    from assms(5) that(1) have c: "length es1 < unat (entryCount h)"
      by simp
    show ?thesis
      unfolding that(1)
      by (rule ExtractData_first_match [OF assms(1-3) l1 l2 that(2) c])
  qed
  have a: "?r = Some (Inl NotFound)" if "name \<notin> snd ` set es"
    by (rule ExtractData_no_match [OF assms(1-4) that assms(5)])
  have b: "?r \<noteq> Some (Inl NotFound)" if "name \<in> snd ` set es"
  proof -
    from that have "\<exists>x\<in>set es. snd x = name" by auto
    then obtain es1 x es2 where s: "es = es1 @ x # es2" and x: "snd x = name"
      and n: "\<forall>y\<in>set es1. snd y \<noteq> name"
      using split_list_first_prop [of es "\<lambda>x. snd x = name"] by blast
    from x have x': "x = (fst x, name)" by (cases x) simp
    from n have n': "name \<notin> snd ` set es1" by auto
    from s x' have s': "es = es1 @ (fst x, name) # es2" by simp
    show ?thesis
      unfolding first [OF s' n'] by (rule extract_entry_not_NotFound)
  qed
  have c: "?r = Some (Inl InvalidOperation)"
    if "es = es1 @ (e, name) # es2" and "name \<notin> snd ` set es1"
      and "entry_type e = EntryType_Directory" for es1 e es2
  proof -
    from that(3) have "entry_type e \<noteq> EntryType_File"
      by (simp add: EntryType_Directory_def EntryType_File_def)
    then show ?thesis
      unfolding first [OF that(1,2)] by (rule extract_entry_Directory)
  qed
  from a b c show ?thesis by blast
qed

lemma dir_only_layout:
  "magic (bare_header 1) = ACF_MAGIC \<and>
   unat (centralDirOffset (bare_header 1)) = 32 + length ([] :: byte list) \<and>
   32 + length ([] :: byte list) < (2 :: nat) ^ 63 \<and>
   lengths_ok dir_only_cd \<and>
   unat (entryCount (bare_header 1)) = length dir_only_cd"
  by (simp add: bare_header_def default_header_def lengths_ok_def dir_only_cd_def)

theorem ExtractData_NotFound_iff_witness:
  "magic (bare_header 1) = ACF_MAGIC \<and>
   unat (centralDirOffset (bare_header 1)) = 32 + length ([] :: byte list) \<and>
   lengths_ok dir_only_cd \<and>
   unat (entryCount (bare_header 1)) = length dir_only_cd \<and>
   ExtractData stored_platform
     (Some (header_bytes (bare_header 1) @ [] @ centralDirBuffer dir_only_cd @ [])) [0x78]
     = Some (Inl NotFound) \<and>
   ExtractData stored_platform
     (Some (header_bytes (bare_header 1) @ [] @ centralDirBuffer dir_only_cd @ [])) [0x64, 0x5C]
     = Some (Inl InvalidOperation)"
proof -
  note l = dir_only_layout
  have 1: "magic (bare_header 1) = ACF_MAGIC" using l by blast
  have 2: "unat (centralDirOffset (bare_header 1)) = 32 + length ([] :: byte list)" using l by blast
  have 3: "32 + length ([] :: byte list) < (2 :: nat) ^ 63" by simp
  have 4: "lengths_ok dir_only_cd" using l by blast
  have 5: "unat (entryCount (bare_header 1)) = length dir_only_cd" using l by blast
  have x: "[0x78] \<notin> snd ` set dir_only_cd"
    by (simp add: dir_only_cd_def)
  have d: "dir_only_cd = [] @ (zero_entry\<lparr>entry_type := EntryType_Directory, pathLength := 2\<rparr>, [0x64, 0x5C]) # []
           \<and> [0x64, 0x5C] \<notin> snd ` set ([] :: (ACFEntryData \<times> byte list) list)
           \<and> entry_type (zero_entry\<lparr>entry_type := EntryType_Directory, pathLength := 2\<rparr>) = EntryType_Directory"
    by (simp add: dir_only_cd_def)
  from ExtractData_NotFound_iff [OF 1 2 3 4 5, of stored_platform "[]" "[0x78]"] x
  have a: "ExtractData stored_platform
     (Some (header_bytes (bare_header 1) @ [] @ centralDirBuffer dir_only_cd @ [])) [0x78]
     = Some (Inl NotFound)" by blast
  from ExtractData_NotFound_iff [OF 1 2 3 4 5, of stored_platform "[]" "[0x64, 0x5C]"] d
  have b: "ExtractData stored_platform
     (Some (header_bytes (bare_header 1) @ [] @ centralDirBuffer dir_only_cd @ [])) [0x64, 0x5C]
     = Some (Inl InvalidOperation)" by blast
  from 1 2 4 5 a b show ?thesis by blast
qed

text \<open>
  Claim C10. When the central directory holds the well-formed entries \<open>es1\<close>, none of them
  with the requested path, then an entry \<open>e\<close> with that path, then any further entries
  \<open>es2\<close>, duplicates of the path included, and \<^verbatim>\<open>entryCount\<close> reaches \<open>e\<close>, \<^verbatim>\<open>ExtractData\<close>
  does with \<open>e\<close> what it does with the entry it found: InvalidOperation when \<open>e\<close> is not a
  File; otherwise, when the data range of \<open>e\<close> lies in the file, the decompressed bytes of
  that range, checked against the CRC32 of \<open>e\<close>. With a positive input buffer size the
  call returns.
\<close>

theorem ExtractData_first_duplicate:
  assumes "magic h = ACF_MAGIC"
    and "unat (centralDirOffset h) = 32 + length body"
    and "32 + length body < 2 ^ 63"
    and "lengths_ok es1"
    and "unat (pathLength e) = length name"
    and "name \<notin> snd ` set es1"
    and "length es1 < unat (entryCount h)"
    and "d = header_bytes h @ body @ centralDirBuffer (es1 @ (e, name) # es2) @ tail"
  shows "ExtractData pf (Some d) name
           = extract_entry pf e
               (stream_at d (32 + length body + length (centralDirBuffer (es1 @ [(e, name)])))) \<and>
         (entry_type e \<noteq> EntryType_File \<longrightarrow>
            ExtractData pf (Some d) name = Some (Inl InvalidOperation)) \<and>
         (entry_type e = EntryType_File \<and> can_reserve_bytes pf (unat (originalSize e)) \<and>
          0 < ZSTD_DStreamInSize pf \<and>
          unat (dataOffset e) + unat (compressedSize e) \<le> length d \<and>
          unat (dataOffset e) < 2 ^ 63 \<longrightarrow>
            ExtractData pf (Some d) name =
              (case zstd_decompress pf
                      (take (unat (compressedSize e)) (drop (unat (dataOffset e)) d)) of
                 None \<Rightarrow> Some (Inl CompressorError)
               | Some decompressedData \<Rightarrow>
                   if crc32 decompressedData \<noteq> entry_crc32 e then Some (Inl CRCMismatch)
                   else Some (Inr decompressedData))) \<and>
         (0 < ZSTD_DStreamInSize pf \<longrightarrow> ExtractData pf (Some d) name \<noteq> None)"
proof -
  have f: "ExtractData pf (Some d) name
           = extract_entry pf e
               (stream_at d (32 + length body + length (centralDirBuffer (es1 @ [(e, name)]))))"
    unfolding assms(8) by (rule ExtractData_first_match [OF assms(1-7)])
  show ?thesis
    unfolding f
    using extract_entry_Directory [of e pf] extract_entry_in_bounds [of e pf d]
      extract_entry_returns [of pf e]
    by blast
qed

theorem ExtractData_first_duplicate_witness:
  "magic dup_header = ACF_MAGIC \<and>
   unat (centralDirOffset dup_header) = 32 + length [1, 2 :: byte] \<and>
   lengths_ok [] \<and>
   unat (pathLength dup_first) = length [0x61 :: byte] \<and>
   [0x61] \<notin> snd ` set ([] :: (ACFEntryData \<times> byte list) list) \<and>
   length ([] :: (ACFEntryData \<times> byte list) list) < unat (entryCount dup_header) \<and>
   ExtractData stored_platform (Some dup_archive) [0x61] = Some (Inr [1]) \<and>
   entry_type (fst (hd dir_only_cd)) \<noteq> EntryType_File \<and>
   ExtractData stored_platform
     (Some (header_bytes (bare_header 1) @ [] @ centralDirBuffer dir_only_cd @ [])) [0x64, 0x5C]
     = Some (Inl InvalidOperation)"
proof -
  let ?de = "zero_entry\<lparr>entry_type := EntryType_Directory, pathLength := 2\<rparr>"
  have dl: "dir_only_cd = [] @ (?de, [0x64, 0x5C]) # []"
    by (simp add: dir_only_cd_def)
  have d5: "unat (pathLength ?de) = length [0x64, 0x5C :: byte]"
    by simp
  have d6: "[0x64, 0x5C] \<notin> snd ` set ([] :: (ACFEntryData \<times> byte list) list)"
    by simp
  have d7: "length ([] :: (ACFEntryData \<times> byte list) list) < unat (entryCount (bare_header 1))"
    by (simp add: bare_header_def default_header_def)
  have d8: "header_bytes (bare_header 1) @ [] @ centralDirBuffer dir_only_cd @ []
      = header_bytes (bare_header 1) @ [] @ centralDirBuffer ([] @ (?de, [0x64, 0x5C]) # []) @ []"
    by (simp add: dir_only_cd_def)
  have dt: "entry_type ?de \<noteq> EntryType_File"
    by (simp add: EntryType_Directory_def EntryType_File_def)
  have dh: "entry_type (fst (hd dir_only_cd)) \<noteq> EntryType_File"
    by (simp add: dir_only_cd_def EntryType_Directory_def EntryType_File_def)
  from dir_only_layout have d1: "magic (bare_header 1) = ACF_MAGIC"
    and d2: "unat (centralDirOffset (bare_header 1)) = 32 + length ([] :: byte list)"
    and d3: "32 + length ([] :: byte list) < (2 :: nat) ^ 63"
    by blast+
  have d4: "lengths_ok []"
    by (simp add: lengths_ok_def)
  from ExtractData_first_duplicate [OF d1 d2 d3 d4 d5 d6 d7 d8, of stored_platform] dt
  have dr: "ExtractData stored_platform
     (Some (header_bytes (bare_header 1) @ [] @ centralDirBuffer dir_only_cd @ [])) [0x64, 0x5C]
     = Some (Inl InvalidOperation)"
    by blast
  have 1: "magic dup_header = ACF_MAGIC"
    by (simp add: dup_header_def default_header_def)
  have 2: "unat (centralDirOffset dup_header) = 32 + length [1, 2 :: byte]"
    by (simp add: dup_header_def default_header_def)
  have 3: "32 + length [1, 2 :: byte] < (2 :: nat) ^ 63"
    by simp
  have 4: "lengths_ok []"
    by (simp add: lengths_ok_def)
  have 5: "unat (pathLength dup_first) = length [0x61 :: byte]"
    by (simp add: dup_first_def zero_entry_def)
  have 6: "[0x61] \<notin> snd ` set ([] :: (ACFEntryData \<times> byte list) list)"
    by simp
  have 7: "length ([] :: (ACFEntryData \<times> byte list) list) < unat (entryCount dup_header)"
    by (simp add: dup_header_def default_header_def)
  have 8: "dup_archive = header_bytes dup_header @ [1, 2]
     @ centralDirBuffer ([] @ (dup_first, [0x61]) # [(dup_second, [0x61])]) @ []"
    by (rule dup_archive_def)
  have e: "entry_type dup_first = EntryType_File \<and>
      can_reserve_bytes stored_platform (unat (originalSize dup_first)) \<and>
      0 < ZSTD_DStreamInSize stored_platform \<and>
      unat (dataOffset dup_first) + unat (compressedSize dup_first) \<le> length dup_archive \<and>
      unat (dataOffset dup_first) < 2 ^ 63"
    by (simp add: dup_first_def zero_entry_def EntryType_File_def stored_platform_def
        dup_archive_def length_header_bytes)
  have t: "take (unat (compressedSize dup_first)) (drop (unat (dataOffset dup_first)) dup_archive) = [1]"
    by (simp add: dup_first_def zero_entry_def dup_archive_def length_header_bytes)
  have c: "entry_crc32 dup_first = crc32 [1]"
    by (simp add: dup_first_def)
  from ExtractData_first_duplicate [OF 1 2 3 4 5 6 7 8, of stored_platform] e
  have "ExtractData stored_platform (Some dup_archive) [0x61] =
      (case zstd_decompress stored_platform
              (take (unat (compressedSize dup_first)) (drop (unat (dataOffset dup_first)) dup_archive)) of
         None \<Rightarrow> Some (Inl CompressorError)
       | Some decompressedData \<Rightarrow>
           if crc32 decompressedData \<noteq> entry_crc32 dup_first then Some (Inl CRCMismatch)
           else Some (Inr decompressedData))"
    by blast
  then have "ExtractData stored_platform (Some dup_archive) [0x61] = Some (Inr [1])"
    unfolding t c by (simp add: stored_platform_def)
  with 1 2 4 5 6 7 dh dr show ?thesis by blast
qed

section \<open>Building an archive\<close>

lemma read_source_all:
  "0 < n \<Longrightarrow> read_source n content (crc, fed) = (crc32_update crc content, fed @ content)"
proof (induction n content "(crc, fed)" arbitrary: crc fed rule: read_source.induct)
  case (1 inBuffSize content crc fed)
  show ?case
  proof (cases "content = []")
    case True
    then show ?thesis by (simp add: crc32_update_Nil)
  next
    case False
    with "1.prems" have b: "length (take inBuffSize content) \<noteq> 0" by simp
    have "read_source inBuffSize content (crc, fed)
        = read_source inBuffSize (drop inBuffSize content)
            (crc32_update crc (take inBuffSize content), fed @ take inBuffSize content)"
      using b by (simp add: Let_def)
    also have "\<dots> = (crc32_update (crc32_update crc (take inBuffSize content)) (drop inBuffSize content),
                     (fed @ take inBuffSize content) @ drop inBuffSize content)"
      using b "1.prems" by (intro "1.hyps") simp_all
    finally show ?thesis
      using crc32_update_append [of crc "take inBuffSize content" "drop inBuffSize content"]
      by simp
  qed
qed




lemma sample_collected:
  "collected sample_fs sample_inputs
    = \<lparr>processedPaths = {[''a'', ''b''], [''a''], [''a.b'']},
       filesToProcess = [[''a.b''], [''a'', ''b'']], dirsToProcess = [[''a'']]\<rparr>"
  by (simp add: collected_def sample_fs_def sample_inputs_def)

lemma sample_sort: "sort [[''a.b''], [''a'', ''b'']] = [[''a'', ''b''], [''a.b'']]"
  by (simp add: less_eq_char_def less_char_def)

lemma Create_entries_collected:
  "Create_entries pf fs inputPaths basePath internalBasePath =
     add_files pf fs internalBasePath basePath (sort (filesToProcess (collected fs inputPaths)))
       ([], map (make_dir_entry fs internalBasePath basePath)
              (sort (dirsToProcess (collected fs inputPaths))))"
  by (simp add: Create_entries_def collected_def Let_def)

lemma sample_Create_entries:
  "Create_entries stored_platform sample_fs sample_inputs [] [] = Inr ([1, 2, 3, 4, 5], sample_cd)"
proof -
  have n: "0 < ZSTD_CStreamInSize stored_platform"
    by (simp add: stored_platform_def)
  let ?de = "(zero_entry\<lparr>entry_type := EntryType_Directory, pathLength := 2\<rparr>, [0x61, 0x5C :: byte])"
  have d: "make_dir_entry sample_fs [] [] [''a''] = ?de"
    by (simp add: make_dir_entry_def dir_internal_path_def sample_fs_def sample_cd_def Let_def zero_entry_def)
  have r1: "fs_open_read sample_fs [''a'', ''b''] = Some [1, 2, 3, 4, 5]"
    and r2: "fs_open_read sample_fs [''a.b''] = Some []"
    by (simp_all add: sample_fs_def)
  have z: "zstd_compress stored_platform = Some"
    by (simp add: stored_platform_def)
  have f: "add_files stored_platform sample_fs [] [] [[''a'', ''b''], [''a.b'']] ([], [?de])
         = Inr ([1, 2, 3, 4, 5], sample_cd)"
    unfolding add_files.simps Let_def r1 r2 option.case read_source_all [OF n] prod.case z
    by (simp add: sample_fs_def sample_cd_def zero_entry_def EntryType_File_def
        sizeof_ACFHeader_def crc32_update_Nil crc32_def)
  show ?thesis
    unfolding Create_entries_collected sample_collected
    by (simp add: sample_sort d f del: add_files.simps)
qed

lemma Create_sample:
  "Create stored_platform sample_fs [] sample_inputs [] [] = Inr sample_archive"
  unfolding Create_def sample_Create_entries
  by (simp add: sample_fs_def sample_archive_def sample_cd_def sizeof_ACFHeader_def Let_def)

lemma Create_Inr:
  assumes "Create pf fs archivePath inputPaths basePath internalBasePath = Inr archive"
  shows "\<exists>body cd. Create_entries pf fs inputPaths basePath internalBasePath = Inr (body, cd) \<and>
     archive = header_bytes (default_header
                   \<lparr>centralDirOffset := of_nat (32 + length body),
                    entryCount := of_nat (length cd),
                    centralDirCRC32 := crc32 (centralDirBuffer cd)\<rparr>)
                 @ body @ centralDirBuffer cd"
proof (cases "Create_entries pf fs inputPaths basePath internalBasePath")
  case (Inl e)
  with assms show ?thesis
    by (simp add: Create_def split: if_splits)
next
  case (Inr r)
  obtain body cd where r: "r = (body, cd)" by (cases r)
  from assms Inr r show ?thesis
    by (simp add: Create_def Let_def sizeof_ACFHeader_def split: if_splits)
qed

lemma drop_header_body:
  "drop (32 + length body) (header_bytes h @ body @ cd) = cd"
  by (simp add: length_header_bytes)

lemma length_centralDirBuffer_ge: "length es \<le> length (centralDirBuffer es)"
proof (induction es)
  case Nil
  show ?case by simp
next
  case (Cons a es)
  obtain e p where a: "a = (e, p)" by (cases a)
  from Cons show ?case by (simp add: a length_entry_bytes)
qed

lemma unat_of_nat_u64: "n < 2 ^ 64 \<Longrightarrow> unat (of_nat n :: u64) = n"
  by (simp add: unat_of_nat)

text \<open>
  Claim C9. For every archive that \<^verbatim>\<open>Create\<close> produces (shorter than \<open>2^64\<close> bytes, as every
  file is), the bytes from \<^verbatim>\<open>centralDirOffset\<close> to the end of the file are the serialised
  central directory that \<^verbatim>\<open>Create\<close> built, their CRC32 is the \<^verbatim>\<open>centralDirCRC32\<close> of the file
  header, and \<^verbatim>\<open>entryCount\<close> is the number of (descriptor, path) pairs of that directory.
\<close>

theorem Create_central_directory_crc:
  assumes "Create pf fs archivePath inputPaths basePath internalBasePath = Inr archive"
    and "length archive < 2 ^ 64"
  shows "\<exists>body cd. Create_entries pf fs inputPaths basePath internalBasePath = Inr (body, cd) \<and>
      drop (unat (centralDirOffset (header_of_bytes archive))) archive = centralDirBuffer cd \<and>
      crc32 (drop (unat (centralDirOffset (header_of_bytes archive))) archive)
        = centralDirCRC32 (header_of_bytes archive) \<and>
      unat (entryCount (header_of_bytes archive)) = length cd"
proof -
  from Create_Inr [OF assms(1)] obtain body cd
    where ce: "Create_entries pf fs inputPaths basePath internalBasePath = Inr (body, cd)"
      and ar: "archive = header_bytes (default_header
                   \<lparr>centralDirOffset := of_nat (32 + length body),
                    entryCount := of_nat (length cd),
                    centralDirCRC32 := crc32 (centralDirBuffer cd)\<rparr>)
                 @ body @ centralDirBuffer cd"
    by blast
  let ?h = "default_header\<lparr>centralDirOffset := of_nat (32 + length body),
                    entryCount := of_nat (length cd),
                    centralDirCRC32 := crc32 (centralDirBuffer cd)\<rparr>"
  have h: "header_of_bytes archive = ?h"
    unfolding ar by (rule header_of_bytes_header_bytes)
  have la: "length archive = 32 + length body + length (centralDirBuffer cd)"
    unfolding ar by (simp add: length_header_bytes)
  from la assms(2) have b1: "32 + length body < 2 ^ 64" by simp
  from la assms(2) length_centralDirBuffer_ge [of cd] have b2: "length cd < 2 ^ 64" by simp
  have o: "unat (centralDirOffset ?h) = 32 + length body"
    using unat_of_nat_u64 [OF b1] by simp
  have c: "unat (entryCount ?h) = length cd"
    using unat_of_nat_u64 [OF b2] by simp
  have d: "drop (32 + length body) archive = centralDirBuffer cd"
    unfolding ar by (rule drop_header_body)
  show ?thesis
    unfolding h o c d using ce by simp
qed

theorem Create_central_directory_crc_witness:
  "Create stored_platform sample_fs [] sample_inputs [] [] = Inr sample_archive \<and>
   length sample_archive < 2 ^ 64 \<and>
   drop (unat (centralDirOffset (header_of_bytes sample_archive))) sample_archive
     = centralDirBuffer sample_cd \<and>
   crc32 (drop (unat (centralDirOffset (header_of_bytes sample_archive))) sample_archive)
     = centralDirCRC32 (header_of_bytes sample_archive) \<and>
   unat (entryCount (header_of_bytes sample_archive)) = length sample_cd"
proof -
  have l: "length sample_archive < 2 ^ 64"
    by (simp add: sample_archive_def sample_cd_def length_header_bytes length_entry_bytes)
  from Create_central_directory_crc [OF Create_sample l]
  obtain body cd
    where e: "Create_entries stored_platform sample_fs sample_inputs [] [] = Inr (body, cd)"
      and r: "drop (unat (centralDirOffset (header_of_bytes sample_archive))) sample_archive
                = centralDirBuffer cd"
        "crc32 (drop (unat (centralDirOffset (header_of_bytes sample_archive))) sample_archive)
                = centralDirCRC32 (header_of_bytes sample_archive)"
        "unat (entryCount (header_of_bytes sample_archive)) = length cd"
    by blast
  from e have "cd = sample_cd"
    by (simp add: sample_Create_entries)
  with r Create_sample l show ?thesis
    by blast
qed

lemma long_Create_entries:
  "Create_entries stored_platform long_fs [[''f'']] [] [] = Inr ([], [(long_entry, long_path)])"
proof -
  have n: "0 < ZSTD_CStreamInSize stored_platform"
    by (simp add: stored_platform_def)
  have c: "collected long_fs [[''f'']]
      = \<lparr>processedPaths = {[''f'']}, filesToProcess = [[''f'']], dirsToProcess = []\<rparr>"
    by (simp add: collected_def long_fs_def)
  have r: "fs_open_read long_fs [''f''] = Some []"
    by (simp add: long_fs_def)
  have z: "zstd_compress stored_platform = Some"
    by (simp add: stored_platform_def)
  have p: "fs_internal_path long_fs [] [] [''f''] = long_path"
    by (simp add: long_fs_def long_path_def)
  have l: "length long_path = 65536"
    by (simp add: long_path_def)
  have f: "add_files stored_platform long_fs [] [] [[''f'']] ([], []) = Inr ([], [(long_entry, long_path)])"
    unfolding add_files.simps Let_def r option.case read_source_all [OF n] prod.case z p l
    by (simp add: long_fs_def long_entry_def zero_entry_def EntryType_File_def
        sizeof_ACFHeader_def crc32_update_Nil)
  show ?thesis
    unfolding Create_entries_collected c
    by (simp add: f del: add_files.simps)
qed

text \<open>
  Claim C7 at a failing input. The single file \<open>f\<close> has an internal path of 65536 bytes.
  \<^verbatim>\<open>Create\<close> does not reject it: it returns an archive whose entry stores the whole path
  with a \<^verbatim>\<open>pathLength\<close> of 0, and \<^verbatim>\<open>List\<close> reads that archive as one entry with the empty
  path.
\<close>

theorem Create_long_path_truncated:
  "Create stored_platform long_fs [] [[''f'']] [] [] = Inr long_archive \<and>
   snd (hd (snd (projr (Create_entries stored_platform long_fs [[''f'']] [] []))))  = long_path \<and>
   length long_path = 65536 \<and>
   unat (pathLength (fst (hd (snd (projr (Create_entries stored_platform long_fs [[''f'']] [] []))))))
     = 0 \<and>
   List stored_platform (Some long_archive) = Inr [(long_entry, [])]"
proof -
  let ?h = "default_header\<lparr>centralDirOffset := 32, entryCount := 1,
                      centralDirCRC32 := crc32 (centralDirBuffer [(long_entry, long_path)])\<rparr>"
  have c: "Create stored_platform long_fs [] [[''f'']] [] [] = Inr long_archive"
    unfolding Create_def long_Create_entries
    by (simp add: long_fs_def long_archive_def sizeof_ACFHeader_def Let_def)
  have l: "length long_path = 65536"
    by (simp add: long_path_def)
  have "List stored_platform (Some (header_bytes ?h @ [] @ centralDirBuffer [(long_entry, long_path)]))
         = Inr (parse_entries (unat (entryCount ?h)) (centralDirBuffer [(long_entry, long_path)]))"
    by (subst List_layout) (simp_all add: default_header_def stored_platform_def)
  also have "parse_entries (unat (entryCount ?h)) (centralDirBuffer [(long_entry, long_path)])
       = parse_entries (Suc 0) (entry_bytes long_entry @ [] @ long_path)"
    by simp
  also have "\<dots> = (long_entry, []) # parse_entries 0 long_path"
    by (rule parse_entries_step) (simp add: long_entry_def)
  finally have li: "List stored_platform (Some long_archive) = Inr [(long_entry, [])]"
    by (simp add: long_archive_def)
  show ?thesis
    unfolding long_Create_entries using c l li by (simp add: long_entry_def)
qed

section \<open>The order of the central directory\<close>

lemma walk_directory_inv: "enum_inv st \<Longrightarrow> enum_inv (walk_directory des st)"
proof (induction des arbitrary: st)
  case Nil
  then show ?case by simp
next
  case (Cons de des)
  show ?case
  proof (cases "de_path de \<in> processedPaths st")
    case True
    with Cons show ?thesis by simp
  next
    case False
    let ?st1 = "(if de_is_directory de
                   then st\<lparr>dirsToProcess := dirsToProcess st @ [de_path de]\<rparr>
                   else if de_is_regular_file de
                   then st\<lparr>filesToProcess := filesToProcess st @ [de_path de]\<rparr>
                   else st)"
    have "enum_inv (?st1\<lparr>processedPaths := insert (de_path de) (processedPaths ?st1)\<rparr>)"
      using Cons.prems False by (auto simp add: enum_inv_def)
    from Cons.IH [OF this] False show ?thesis
      by (simp add: Let_def)
  qed
qed

lemma collect_inputs_inv: "enum_inv st \<Longrightarrow> enum_inv (collect_inputs fs inputPaths st)"
proof (induction inputPaths arbitrary: st)
  case Nil
  then show ?case by simp
next
  case (Cons p ps)
  show ?case
  proof (cases "\<not> fs_exists fs p \<or> p \<in> processedPaths st")
    case True
    with Cons show ?thesis by auto
  next
    case False
    then have np: "p \<notin> processedPaths st" and ex: "fs_exists fs p" by simp_all
    show ?thesis
    proof (cases "fs_is_directory fs p")
      case True
      have "enum_inv (st\<lparr>dirsToProcess := dirsToProcess st @ [p],
                           processedPaths := insert p (processedPaths st)\<rparr>)"
        using Cons.prems np by (auto simp add: enum_inv_def)
      then have "enum_inv (walk_directory (fs_recursive_directory_iterator fs p)
                   (st\<lparr>dirsToProcess := dirsToProcess st @ [p],
                           processedPaths := insert p (processedPaths st)\<rparr>))"
        by (rule walk_directory_inv)
      from Cons.IH [OF this] True np ex show ?thesis
        by (simp add: Let_def)
    next
      case nd: False
      show ?thesis
      proof (cases "fs_is_regular_file fs p")
        case True
        have "enum_inv (st\<lparr>filesToProcess := filesToProcess st @ [p],
                           processedPaths := insert p (processedPaths st)\<rparr>)"
          using Cons.prems np by (auto simp add: enum_inv_def)
        from Cons.IH [OF this] True nd np ex show ?thesis
          by simp
      next
        case False
        with Cons nd np ex show ?thesis by simp
      qed
    qed
  qed
qed

lemma collected_inv: "enum_inv (collected fs inputPaths)"
  unfolding collected_def by (rule collect_inputs_inv) (simp add: enum_inv_def)

lemma strict_sorted_sort: "distinct xs \<Longrightarrow> sorted_wrt (<) (sort xs)"
  by (simp add: strict_sorted_iff)

lemma add_files_shape:
  "add_files pf fs ib b files (body, cd) = Inr (body', cd') \<Longrightarrow>
     \<exists>new. cd' = cd @ new \<and>
        map snd new = map (fs_internal_path fs ib b) (filter (\<lambda>f. fs_open_read fs f \<noteq> None) files) \<and>
        list_all (\<lambda>ep. entry_type (fst ep) = EntryType_File) new"
proof (induction files arbitrary: body cd)
  case Nil
  then show ?case by simp
next
  case (Cons f files)
  show ?case
  proof (cases "fs_open_read fs f")
    case None
    with Cons.prems have "add_files pf fs ib b files (body, cd) = Inr (body', cd')"
      by (simp add: Let_def)
    from Cons.IH [OF this] None show ?thesis by auto
  next
    case (Some content)
    obtain crc fed where rs: "read_source (ZSTD_CStreamInSize pf) content (0, []) = (crc, fed)"
      by (cases "read_source (ZSTD_CStreamInSize pf) content (0, [])")
    show ?thesis
    proof (cases "zstd_compress pf fed")
      case None
      with Some rs Cons.prems show ?thesis by (simp add: Let_def)
    next
      case (Some compressed)
      let ?e = "zero_entry\<lparr>entry_type := EntryType_File, originalSize := fs_file_size fs f,
                  dataOffset := of_nat (sizeof_ACFHeader + length body),
                  filedatetime := fs_file_datetime fs f,
                  fileattribute := ucast (fs_attributes fs f),
                  pathLength := of_nat (length (fs_internal_path fs ib b f)),
                  entry_crc32 := crc,
                  compressedSize := of_nat (length compressed)\<rparr>"
      let ?ep = "(?e, fs_internal_path fs ib b f)"
      from Cons.prems \<open>fs_open_read fs f = Some content\<close> Some rs
      have "add_files pf fs ib b files (body @ compressed, cd @ [?ep]) = Inr (body', cd')"
        by (simp add: Let_def)
      from Cons.IH [OF this] obtain new where n: "cd' = (cd @ [?ep]) @ new"
        "map snd new = map (fs_internal_path fs ib b) (filter (\<lambda>f. fs_open_read fs f \<noteq> None) files)"
        "list_all (\<lambda>ep. entry_type (fst ep) = EntryType_File) new"
        by blast
      have "cd' = cd @ (?ep # new)" using n(1) by simp
      moreover have "map snd (?ep # new)
          = map (fs_internal_path fs ib b) (filter (\<lambda>f. fs_open_read fs f \<noteq> None) (f # files))"
        using n(2) \<open>fs_open_read fs f = Some content\<close> by simp
      moreover have "list_all (\<lambda>ep. entry_type (fst ep) = EntryType_File) (?ep # new)"
        using n(3) by simp
      ultimately show ?thesis by blast
    qed
  qed
qed

lemma make_dir_entry_type:
  "list_all (\<lambda>ep. entry_type (fst ep) = EntryType_Directory) (map (make_dir_entry fs ib b) dirs)"
  by (simp add: list_all_iff make_dir_entry_def Let_def)

text \<open>
  Claim C6, as the code orders the entries. In the central directory that \<^verbatim>\<open>Create\<close> builds,
  the Directory entries, one for each collected directory, precede the File entries, one
  for each collected file that could be opened. Within each group the entries follow
  the strictly ascending order of their source paths under the comparison of
  \<^verbatim>\<open>fs::path\<close>, which is the order \<^verbatim>\<open>std::sort\<close> produced; the stored path strings are the
  internal paths of those source paths, in that order.
\<close>

theorem Create_entry_order:
  assumes "Create_entries pf fs inputPaths basePath internalBasePath = Inr (body, cd)"
  shows "\<exists>dirs files fileEntries.
      cd = map (make_dir_entry fs internalBasePath basePath) dirs @ fileEntries \<and>
      dirs = sort (dirsToProcess (collected fs inputPaths)) \<and>
      files = sort (filesToProcess (collected fs inputPaths)) \<and>
      sorted_wrt (<) dirs \<and> sorted_wrt (<) files \<and>
      list_all (\<lambda>ep. entry_type (fst ep) = EntryType_Directory)
        (map (make_dir_entry fs internalBasePath basePath) dirs) \<and>
      list_all (\<lambda>ep. entry_type (fst ep) = EntryType_File) fileEntries \<and>
      map snd fileEntries
        = map (fs_internal_path fs internalBasePath basePath)
            (filter (\<lambda>f. fs_open_read fs f \<noteq> None) files)"
proof -
  let ?dirs = "sort (dirsToProcess (collected fs inputPaths))"
  let ?files = "sort (filesToProcess (collected fs inputPaths))"
  from assms have "add_files pf fs internalBasePath basePath ?files
      ([], map (make_dir_entry fs internalBasePath basePath) ?dirs) = Inr (body, cd)"
    by (simp only: Create_entries_collected)
  from add_files_shape [OF this] obtain new
    where n: "cd = map (make_dir_entry fs internalBasePath basePath) ?dirs @ new"
      "map snd new = map (fs_internal_path fs internalBasePath basePath)
            (filter (\<lambda>f. fs_open_read fs f \<noteq> None) ?files)"
      "list_all (\<lambda>ep. entry_type (fst ep) = EntryType_File) new"
    by blast
  from collected_inv [of fs inputPaths]
  have "distinct (dirsToProcess (collected fs inputPaths))"
    and "distinct (filesToProcess (collected fs inputPaths))"
    by (simp_all add: enum_inv_def)
  then have "sorted_wrt (<) ?dirs" and "sorted_wrt (<) ?files"
    by (simp_all add: strict_sorted_sort)
  with n make_dir_entry_type [of fs internalBasePath basePath ?dirs] show ?thesis
    by blast
qed

theorem Create_entry_order_witness:
  "Create_entries stored_platform sample_fs sample_inputs [] [] = Inr ([1, 2, 3, 4, 5], sample_cd) \<and>
   sample_cd = map (make_dir_entry sample_fs [] []) [[''a'']] @ tl sample_cd \<and>
   sort (dirsToProcess (collected sample_fs sample_inputs)) = [[''a'']] \<and>
   sort (filesToProcess (collected sample_fs sample_inputs)) = [[''a'', ''b''], [''a.b'']] \<and>
   sorted_wrt (<) [[''a'', ''b''], [''a.b'']] \<and>
   map snd (tl sample_cd) = map (fs_internal_path sample_fs [] []) [[''a'', ''b''], [''a.b'']]"
proof -
  from Create_entry_order [OF sample_Create_entries]
  obtain fileEntries
    where c: "sample_cd = map (make_dir_entry sample_fs [] [])
                (sort (dirsToProcess (collected sample_fs sample_inputs))) @ fileEntries"
      and s: "sorted_wrt (<) (sort (filesToProcess (collected sample_fs sample_inputs)))"
      and m: "map snd fileEntries = map (fs_internal_path sample_fs [] [])
            (filter (\<lambda>f. fs_open_read sample_fs f \<noteq> None)
               (sort (filesToProcess (collected sample_fs sample_inputs))))"
    by blast
  have d: "sort (dirsToProcess (collected sample_fs sample_inputs)) = [[''a'']]"
    by (simp add: sample_collected)
  have f: "sort (filesToProcess (collected sample_fs sample_inputs)) = [[''a'', ''b''], [''a.b'']]"
    by (simp add: sample_collected sample_sort)
  have r: "filter (\<lambda>f. fs_open_read sample_fs f \<noteq> None) [[''a'', ''b''], [''a.b'']]
             = [[''a'', ''b''], [''a.b'']]"
    by (simp add: sample_fs_def)
  from c have t: "fileEntries = tl sample_cd"
    unfolding d by (simp add: sample_cd_def)
  from c s m show ?thesis
    unfolding d f r t using sample_Create_entries by simp
qed

text \<open>
  The claim as it is written fails: of the sample inputs, the file \<open>a\b\<close> is sorted before the
  file \<open>a.b\<close>, because the name \<open>a\<close> precedes the name \<open>a.b\<close>, but as byte strings the stored
  path \<open>a\b\<close> follows \<open>a.b\<close>, because the separator 0x5C is greater than the dot 0x2E.
\<close>

theorem Create_byte_order_counterexample:
  "Create_entries stored_platform sample_fs sample_inputs [] [] = Inr ([1, 2, 3, 4, 5], sample_cd) \<and>
   map snd (filter (\<lambda>ep. entry_type (fst ep) = EntryType_File) sample_cd)
     = [[0x61, 0x5C, 0x62], [0x61, 0x2E, 0x62]] \<and>
   \<not> sorted_wrt (<) [[0x61, 0x5C, 0x62], [0x61, 0x2E, 0x62 :: byte]]"
  by (simp add: sample_Create_entries sample_cd_def zero_entry_def EntryType_File_def
      EntryType_Directory_def)

section \<open>CRC32 detects a changed byte\<close>

lemma xor_eq_0_word: "a XOR b = 0 \<longleftrightarrow> a = (b :: u32)"
proof
  assume z: "a XOR b = 0"
  show "a = b"
  proof (rule bit_eqI)
    fix n
    from z have "bit (a XOR b) n = bit (0 :: u32) n" by simp
    then show "bit a n = bit b n" by (simp add: bit_xor_iff)
  qed
next
  assume "a = b"
  then show "a XOR b = 0" by simp
qed

lemma crc32_bit_alt:
  "crc32_bit c = drop_bit 1 c XOR (if odd c then 0xEDB88320 else 0)"
  by (simp add: crc32_bit_def and_one_eq mod_2_eq_odd)

lemma crc32_bit_xor: "crc32_bit (a XOR b) = crc32_bit a XOR crc32_bit b"
  by (cases "odd a"; cases "odd b") (simp_all add: crc32_bit_alt even_xor_iff ac_simps)

lemma crc32_bit_even: "even c \<Longrightarrow> crc32_bit c = drop_bit 1 c"
  by (simp add: crc32_bit_alt)

lemma crc32_bit_kernel:
  assumes "crc32_bit c = 0"
  shows "c = 0"
proof (cases "odd c")
  case True
  with assms have "drop_bit 1 c XOR 0xEDB88320 = 0"
    by (simp add: crc32_bit_alt)
  then have "drop_bit 1 c = (0xEDB88320 :: u32)"
    by (simp add: xor_eq_0_word)
  moreover have "\<not> bit (drop_bit 1 c) 31"
    by (auto simp add: bit_simps dest: bit_imp_le_length)
  moreover have "bit (0xEDB88320 :: u32) 31"
    by simp
  ultimately show ?thesis
    by simp
next
  case False
  with assms have d: "drop_bit 1 c = 0"
    by (simp add: crc32_bit_alt)
  show ?thesis
  proof (rule bit_eqI)
    fix n
    show "bit c n = bit (0 :: u32) n"
    proof (cases n)
      case 0
      with False show ?thesis by (simp add: bit_0)
    next
      case (Suc m)
      have "bit c (Suc m) = bit (drop_bit 1 c) m"
        by (simp add: bit_simps)
      with d Suc show ?thesis by simp
    qed
  qed
qed

lemma crc32_bit_inj: "crc32_bit a = crc32_bit b \<Longrightarrow> a = b"
proof -
  assume "crc32_bit a = crc32_bit b"
  then have "crc32_bit (a XOR b) = 0"
    by (simp add: crc32_bit_xor)
  then have "a XOR b = 0"
    by (rule crc32_bit_kernel)
  then show "a = b"
    by (simp add: xor_eq_0_word)
qed

lemma crc32_bit_pow_xor: "(crc32_bit ^^ k) (a XOR b) = (crc32_bit ^^ k) a XOR (crc32_bit ^^ k) b"
  by (induction k) (simp_all add: crc32_bit_xor)

lemma crc32_bit_pow_inj: "(crc32_bit ^^ k) a = (crc32_bit ^^ k) b \<Longrightarrow> a = b"
  by (induction k) (auto dest: crc32_bit_inj)

lemma crc32_bit_pow_shift:
  "take_bit k c = 0 \<Longrightarrow> (crc32_bit ^^ k) c = drop_bit k c"
proof (induction k arbitrary: c)
  case 0
  show ?case by simp
next
  case (Suc k)
  have t: "take_bit k c = 0"
  proof -
    have "take_bit k (take_bit (Suc k) c) = take_bit k c"
      by (simp add: take_bit_take_bit)
    with Suc.prems show ?thesis by simp
  qed
  have e: "even (drop_bit k c)"
  proof -
    have "bit (take_bit (Suc k) c) k = bit c k" by (simp add: bit_simps)
    with Suc.prems have "\<not> bit c k" by simp
    then show ?thesis by (simp add: bit_iff_odd_drop_bit)
  qed
  have "(crc32_bit ^^ Suc k) c = crc32_bit ((crc32_bit ^^ k) c)" by simp
  also have "\<dots> = crc32_bit (drop_bit k c)" using Suc.IH [OF t] by simp
  also have "\<dots> = drop_bit 1 (drop_bit k c)" using e by (rule crc32_bit_even)
  finally show ?case by (simp add: drop_bit_drop_bit)
qed

lemma crc32_table_step:
  "crc32_tab ((c XOR ucast p) AND 0xFF) XOR drop_bit 8 c = (crc32_bit ^^ 8) (c XOR ucast (p :: byte))"
proof -
  let ?x = "c XOR ucast p"
  have split: "?x = (?x AND 0xFF) XOR (?x AND NOT 0xFF)"
    by (rule bit_eqI) (auto simp add: bit_simps)
  have hi0: "take_bit 8 (?x AND NOT 0xFF) = 0"
  proof (rule bit_eqI)
    fix n
    have m: "(0xFF :: u32) = mask 8" by (simp add: mask_eq_exp_minus_1)
    show "bit (take_bit 8 (?x AND NOT 0xFF)) n = bit (0 :: u32) n"
      unfolding m by (auto simp add: bit_simps)
  qed
  have hi: "drop_bit 8 (?x AND NOT 0xFF) = drop_bit 8 c"
  proof (rule bit_eqI)
    fix n
    have m: "(0xFF :: u32) = mask 8" by (simp add: mask_eq_exp_minus_1)
    show "bit (drop_bit 8 (?x AND NOT 0xFF)) n = bit (drop_bit 8 c) n"
      unfolding m by (auto simp add: bit_simps dest: bit_imp_le_length)
  qed
  have sh: "(crc32_bit ^^ 8) (?x AND NOT 0xFF) = drop_bit 8 c"
    using crc32_bit_pow_shift [OF hi0] by (simp only: hi)
  have "(crc32_bit ^^ 8) ?x = (crc32_bit ^^ 8) ((?x AND 0xFF) XOR (?x AND NOT 0xFF))"
    by (subst split) (rule refl)
  also have "\<dots> = (crc32_bit ^^ 8) (?x AND 0xFF) XOR (crc32_bit ^^ 8) (?x AND NOT 0xFF)"
    by (rule crc32_bit_pow_xor)
  finally show ?thesis
    by (simp only: crc32_tab_def sh)
qed

lemma crc32_loop_Cons_pow:
  "crc32_loop c (p # ps) = crc32_loop ((crc32_bit ^^ 8) (c XOR ucast p)) ps"
  by (simp only: crc32_loop.simps crc32_table_step)

lemma xor_cancel_right: "a XOR q = b XOR q \<Longrightarrow> a = (b :: u32)"
proof -
  assume "a XOR q = b XOR q"
  then have "(a XOR q) XOR q = (b XOR q) XOR q" by simp
  then show ?thesis by (simp add: xor.assoc)
qed

lemma xor_cancel_left: "q XOR a = q XOR b \<Longrightarrow> a = (b :: u32)"
  using xor_cancel_right [of a q b] by (simp add: xor.commute)

lemma ucast_byte_inj:
  assumes "(ucast (p :: byte) :: u32) = ucast q"
  shows "p = q"
proof (rule bit_word_eqI)
  fix n
  assume "n < LENGTH(8)"
  then have n: "n < 8" by simp
  from assms have "bit (ucast p :: u32) n = bit (ucast q :: u32) n" by simp
  with n show "bit p n = bit q n" by (simp add: bit_ucast_iff)
qed

lemma crc32_loop_inj: "crc32_loop c ps = crc32_loop c' ps \<Longrightarrow> c = c'"
proof (induction ps arbitrary: c c')
  case Nil
  then show ?case by simp
next
  case (Cons p ps)
  from Cons.prems
  have "crc32_loop ((crc32_bit ^^ 8) (c XOR ucast p)) ps
      = crc32_loop ((crc32_bit ^^ 8) (c' XOR ucast p)) ps"
    by (simp only: crc32_loop_Cons_pow)
  then have "(crc32_bit ^^ 8) (c XOR ucast p) = (crc32_bit ^^ 8) (c' XOR ucast p)"
    by (rule Cons.IH)
  then have "c XOR ucast p = c' XOR ucast p"
    by (rule crc32_bit_pow_inj)
  then show ?case
    by (rule xor_cancel_right)
qed

lemma crc32_byte_change:
  assumes "x \<noteq> y"
  shows "crc32 (cd1 @ x # cd2) \<noteq> crc32 (cd1 @ y # cd2)"
proof
  assume "crc32 (cd1 @ x # cd2) = crc32 (cd1 @ y # cd2)"
  then have "crc32_loop (NOT 0) (cd1 @ x # cd2) = crc32_loop (NOT 0) (cd1 @ y # cd2)"
    by (simp add: crc32_def crc32_update_def)
  then have "crc32_loop (crc32_loop (NOT 0) cd1) (x # cd2) = crc32_loop (crc32_loop (NOT 0) cd1) (y # cd2)"
    by (simp only: crc32_loop_append)
  then have "crc32_loop ((crc32_bit ^^ 8) (crc32_loop (NOT 0) cd1 XOR ucast x)) cd2
        = crc32_loop ((crc32_bit ^^ 8) (crc32_loop (NOT 0) cd1 XOR ucast y)) cd2"
    by (simp only: crc32_loop_Cons_pow)
  then have "(crc32_bit ^^ 8) (crc32_loop (NOT 0) cd1 XOR ucast x)
        = (crc32_bit ^^ 8) (crc32_loop (NOT 0) cd1 XOR ucast y)"
    by (rule crc32_loop_inj)
  then have "crc32_loop (NOT 0) cd1 XOR ucast x = crc32_loop (NOT 0) cd1 XOR ucast y"
    by (rule crc32_bit_pow_inj)
  then have "(ucast x :: u32) = ucast y"
    by (rule xor_cancel_left)
  then have "x = y"
    by (rule ucast_byte_inj)
  with assms show False by simp
qed

lemma scan_entries_Inl: "scan_entries n s name = Inl e \<Longrightarrow> e = IndeterminateRead"
proof (induction n arbitrary: s)
  case 0
  then show ?case by simp
next
  case (Suc n)
  obtain eb s1 where r1: "istream_read sizeof_ACFEntryData (replicate sizeof_ACFEntryData 0) s = (eb, s1)"
    by (cases "istream_read sizeof_ACFEntryData (replicate sizeof_ACFEntryData 0) s")
  obtain path s2 where r2: "istream_read (unat (pathLength (entry_of_bytes eb)))
       (replicate (unat (pathLength (entry_of_bytes eb))) 0) s1 = (path, s2)"
    by (cases "istream_read (unat (pathLength (entry_of_bytes eb)))
       (replicate (unat (pathLength (entry_of_bytes eb))) 0) s1")
  from Suc.prems r1 r2 Suc.IH [of s2] show ?case
    by (simp add: Let_def split: if_splits)
qed

lemma extract_entry_not_BadArchive: "extract_entry pf e s \<noteq> Some (Inl BadArchive)"
  by (simp add: extract_entry_def Let_def split: option.split)

lemma ExtractData_not_BadArchive: "ExtractData pf file name \<noteq> Some (Inl BadArchive)"
proof (cases "file")
  case None
  then show ?thesis by (simp add: ExtractData_def)
next
  case (Some d)
  obtain hb s1 where r: "istream_read sizeof_ACFHeader (header_bytes default_header) (ifstream_open d) = (hb, s1)"
    by (cases "istream_read sizeof_ACFHeader (header_bytes default_header) (ifstream_open d)")
  let ?sc = "scan_entries (unat (entryCount (header_of_bytes hb)))
               (seekg (unat (centralDirOffset (header_of_bytes hb))) s1) name"
  show ?thesis
  proof (cases ?sc)
    case (Inl e)
    with scan_entries_Inl [OF Inl] Some r show ?thesis
      by (simp add: ExtractData_def Let_def)
  next
    case (Inr v)
    show ?thesis
    proof (cases v)
      case None
      with Inr Some r show ?thesis
        by (simp add: ExtractData_def Let_def)
    next
      case (Some es)
      obtain e s3 where "es = (e, s3)" by (cases es)
      with Some Inr \<open>file = Some d\<close> r extract_entry_not_BadArchive [of pf e s3] show ?thesis
        by (simp add: ExtractData_def Let_def)
    qed
  qed
qed

section \<open>A corrupted central directory\<close>

lemma sample_archive_layout:
  "sample_archive = header_bytes sample_header @ [1, 2, 3, 4, 5] @ centralDirBuffer sample_cd"
  by (simp add: sample_archive_def sample_header_def)

lemma sample_header_fields:
  "magic sample_header = ACF_MAGIC"
  "unat (centralDirOffset sample_header) = 32 + length [1, 2, 3, 4, 5 :: byte]"
  "32 + length [1, 2, 3, 4, 5 :: byte] < (2 :: nat) ^ 63"
  "centralDirCRC32 sample_header = crc32 (centralDirBuffer sample_cd)"
  "unat (entryCount sample_header) = 3"
  by (simp_all add: sample_header_def default_header_def)

lemma sample_cd_last:
  "centralDirBuffer sample_cd = butlast (centralDirBuffer sample_cd) @ 0x62 # []"
proof -
  have "centralDirBuffer sample_cd \<noteq> []" and "last (centralDirBuffer sample_cd) = 0x62"
    by (simp_all add: sample_cd_def)
  then show ?thesis
    using append_butlast_last_id [of "centralDirBuffer sample_cd"] by simp
qed

lemma corrupt_archive_layout:
  "corrupt_archive = header_bytes sample_header @ [1, 2, 3, 4, 5]
      @ butlast (centralDirBuffer sample_cd) @ 0x63 # []"
proof -
  have "centralDirBuffer sample_cd \<noteq> []"
    by (simp add: sample_cd_def)
  then show ?thesis
    by (simp add: corrupt_archive_def sample_archive_layout butlast_append)
qed

lemma List_sample_archive: "List stored_platform (Some sample_archive) = Inr sample_cd"
proof -
  have l: "lengths_ok sample_cd"
    by (simp add: lengths_ok_def sample_cd_def zero_entry_def)
  have "parse_entries (length sample_cd + 0) (centralDirBuffer sample_cd @ [])
          = sample_cd @ parse_entries 0 []"
    by (rule parse_entries_serialised [OF l])
  moreover have "length sample_cd = 3"
    by (simp add: sample_cd_def)
  ultimately have p: "parse_entries 3 (centralDirBuffer sample_cd) = sample_cd"
    by simp
  show ?thesis
    unfolding sample_archive_layout List_layout [OF sample_header_fields(1-3)]
    by (simp add: sample_header_fields p stored_platform_def)
qed

text \<open>
  Claim C4, as the code validates. Take a valid archive: the right magic, the central
  directory at the stored offset, and the stored \<^verbatim>\<open>centralDirCRC32\<close> equal to the CRC32 of the
  central directory. With one byte of the central directory changed, \<^verbatim>\<open>List\<close> fails with
  BadArchive, and so does \<^verbatim>\<open>ExtractAll\<close>, which lists the archive first. \<^verbatim>\<open>ExtractData\<close> does
  not validate the central directory: on no archive and for no path does it fail with
  BadArchive.
\<close>

theorem corrupt_central_directory:
  assumes "magic h = ACF_MAGIC"
    and "unat (centralDirOffset h) = 32 + length body"
    and "32 + length body < 2 ^ 63"
    and "centralDirCRC32 h = crc32 (cd1 @ x # cd2)"
    and "y \<noteq> x"
  shows "List pf (Some (header_bytes h @ body @ cd1 @ y # cd2)) = Inl BadArchive \<and>
         ExtractAll pf (Some (header_bytes h @ body @ cd1 @ y # cd2)) writable
           = Some (Inl BadArchive) \<and>
         (\<forall>name. ExtractData pf (Some (header_bytes h @ body @ cd1 @ y # cd2)) name
                   \<noteq> Some (Inl BadArchive))"
proof -
  have "crc32 (cd1 @ y # cd2) \<noteq> centralDirCRC32 h"
    unfolding assms(4) by (rule crc32_byte_change [OF assms(5)])
  then have l: "List pf (Some (header_bytes h @ body @ cd1 @ y # cd2)) = Inl BadArchive"
    unfolding List_layout [OF assms(1-3)] by simp
  then have "ExtractAll pf (Some (header_bytes h @ body @ cd1 @ y # cd2)) writable
           = Some (Inl BadArchive)"
    by (simp add: ExtractAll_def)
  with l ExtractData_not_BadArchive show ?thesis
    by blast
qed

theorem corrupt_central_directory_witness:
  "magic sample_header = ACF_MAGIC \<and>
   unat (centralDirOffset sample_header) = 32 + length [1, 2, 3, 4, 5 :: byte] \<and>
   centralDirCRC32 sample_header = crc32 (butlast (centralDirBuffer sample_cd) @ 0x62 # []) \<and>
   (0x63 :: byte) \<noteq> 0x62 \<and>
   List stored_platform (Some sample_archive) = Inr sample_cd \<and>
   List stored_platform (Some corrupt_archive) = Inl BadArchive \<and>
   ExtractAll stored_platform (Some corrupt_archive) (\<lambda>p. True) = Some (Inl BadArchive)"
proof -
  have 4: "centralDirCRC32 sample_header = crc32 (butlast (centralDirBuffer sample_cd) @ 0x62 # [])"
    using sample_header_fields(4) sample_cd_last by simp
  have 5: "(0x63 :: byte) \<noteq> 0x62"
    by simp
  from corrupt_central_directory [OF sample_header_fields(1-3) 4 5, of stored_platform "\<lambda>p. True"]
  have "List stored_platform (Some corrupt_archive) = Inl BadArchive \<and>
        ExtractAll stored_platform (Some corrupt_archive) (\<lambda>p. True) = Some (Inl BadArchive)"
    unfolding corrupt_archive_layout by blast
  with sample_header_fields(1,2) 4 5 List_sample_archive show ?thesis
    by blast
qed

text \<open>
  The claim as it is written fails: the sample archive is valid, its last byte lies in the
  central directory, and with that byte changed \<^verbatim>\<open>ExtractData\<close> still returns the content of
  the entry \<open>a\b\<close>.
\<close>

theorem ExtractData_corrupt_counterexample:
  "List stored_platform (Some sample_archive) = Inr sample_cd \<and>
   corrupt_archive = butlast sample_archive @ [0x63] \<and>
   last sample_archive = 0x62 \<and>
   unat (centralDirOffset (header_of_bytes sample_archive)) < length sample_archive \<and>
   List stored_platform (Some corrupt_archive) = Inl BadArchive \<and>
   ExtractData stored_platform (Some corrupt_archive) [0x61, 0x5C, 0x62]
     = Some (Inr [1, 2, 3, 4, 5])"
proof -
  let ?e1 = "(zero_entry\<lparr>entry_type := EntryType_Directory, pathLength := 2\<rparr>, [0x61, 0x5C :: byte])"
  let ?e2 = "zero_entry\<lparr>originalSize := 5, compressedSize := 5, dataOffset := 32,
                   entry_crc32 := crc32 [1, 2, 3, 4, 5], pathLength := 3\<rparr>"
  let ?e3 = "(zero_entry\<lparr>dataOffset := 37, pathLength := 3\<rparr>, [0x61, 0x2E, 0x63 :: byte])"
  have c: "corrupt_archive = header_bytes sample_header @ [1, 2, 3, 4, 5]
      @ centralDirBuffer ([?e1] @ (?e2, [0x61, 0x5C, 0x62]) # [?e3]) @ []"
    by (simp add: corrupt_archive_layout sample_cd_def butlast_append)
  have l1: "lengths_ok [?e1]"
    by (simp add: lengths_ok_def)
  have l2: "unat (pathLength ?e2) = length [0x61, 0x5C, 0x62 :: byte]"
    by simp
  have n: "[0x61, 0x5C, 0x62] \<notin> snd ` set [?e1]"
    by simp
  have k: "length [?e1] < unat (entryCount sample_header)"
    by (simp add: sample_header_fields)
  have ib: "entry_type ?e2 = EntryType_File"
    "can_reserve_bytes stored_platform (unat (originalSize ?e2))"
    "0 < ZSTD_DStreamInSize stored_platform"
    "unat (dataOffset ?e2) + unat (compressedSize ?e2) \<le> length corrupt_archive"
    "unat (dataOffset ?e2) < 2 ^ 63"
    by (simp_all add: zero_entry_def EntryType_File_def stored_platform_def
        corrupt_archive_layout length_header_bytes)
  have t: "take (unat (compressedSize ?e2)) (drop (unat (dataOffset ?e2)) corrupt_archive)
            = [1, 2, 3, 4, 5]"
    by (simp add: corrupt_archive_layout length_header_bytes)
  have "ExtractData stored_platform (Some corrupt_archive) [0x61, 0x5C, 0x62]
      = extract_entry stored_platform ?e2
          (stream_at corrupt_archive
             (32 + length [1, 2, 3, 4, 5 :: byte]
                + length (centralDirBuffer ([?e1] @ [(?e2, [0x61, 0x5C, 0x62])]))))"
    unfolding c by (rule ExtractData_first_match [OF sample_header_fields(1-3) l1 l2 n k])
  also have "\<dots> = Some (Inr [1, 2, 3, 4, 5])"
    unfolding extract_entry_in_bounds [OF ib] t
    by (simp add: stored_platform_def)
  finally have x: "ExtractData stored_platform (Some corrupt_archive) [0x61, 0x5C, 0x62]
     = Some (Inr [1, 2, 3, 4, 5])" .
  have la: "last sample_archive = 0x62"
    by (simp add: sample_archive_def sample_cd_def)
  have o: "unat (centralDirOffset (header_of_bytes sample_archive)) < length sample_archive"
    unfolding sample_archive_layout header_of_bytes_header_bytes
    by (simp add: sample_header_fields length_header_bytes sample_cd_def)
  have 4: "centralDirCRC32 sample_header = crc32 (butlast (centralDirBuffer sample_cd) @ 0x62 # [])"
    using sample_header_fields(4) sample_cd_last by simp
  have b: "List stored_platform (Some corrupt_archive) = Inl BadArchive"
    unfolding corrupt_archive_layout List_layout [OF sample_header_fields(1-3)]
    using crc32_byte_change [of "0x63" "0x62" "butlast (centralDirBuffer sample_cd)" "[]"] 4
    by simp
  from List_sample_archive x la o b show ?thesis
    by (simp add: corrupt_archive_def)
qed

section \<open>A truncated path in the central directory\<close>

lemma cut_header_fields:
  "magic cut_header = ACF_MAGIC"
  "unat (centralDirOffset cut_header) = 32 + length ([] :: byte list)"
  "32 + length ([] :: byte list) < (2 :: nat) ^ 63"
  "centralDirCRC32 cut_header = crc32 (entry_bytes cut_entry @ [0x61, 0x62])"
  "unat (entryCount cut_header) = Suc 0"
  by (simp_all add: cut_header_def bare_header_def default_header_def)

lemma List_cut_archive: "List stored_platform (Some cut_archive) = Inr []"
proof -
  have o: "overruns (entry_bytes cut_entry @ [0x61, 0x62])"
    using entry_of_bytes_entry_bytes [of cut_entry "[]"]
    by (simp add: overruns_def sizeof_ACFEntryData_def length_entry_bytes cut_entry_def)
  have p: "parse_entries (Suc 0) (entry_bytes cut_entry @ [0x61, 0x62]) = []"
    using o by (rule parse_entries_overrun)
  show ?thesis
    unfolding cut_archive_def List_layout [OF cut_header_fields(1-3)] cut_header_fields(5) p
    by (simp add: cut_header_fields(4) stored_platform_def)
qed

lemma scan_cut_archive:
  "scan_entries (Suc 0) (stream_at cut_archive 32) [0x61, 0x62, 0]
     = Inr (Some (cut_entry, \<lparr>str_data = cut_archive, str_pos = 70, str_fail = True\<rparr>))"
proof -
  have r1: "istream_read sizeof_ACFEntryData (replicate sizeof_ACFEntryData 0) (stream_at cut_archive 32)
      = (entry_bytes cut_entry, stream_at cut_archive 68)"
    using istream_read_at [of "entry_bytes cut_entry" "header_bytes cut_header" "[0x61, 0x62]"]
    by (simp add: cut_archive_def sizeof_ACFEntryData_def length_entry_bytes length_header_bytes)
  have eb: "entry_of_bytes (entry_bytes cut_entry) = cut_entry"
    using entry_of_bytes_entry_bytes [of cut_entry "[]"] by simp
  have l: "unat (pathLength cut_entry) = 3"
    by (simp add: cut_entry_def)
  have r2: "istream_read 3 (replicate 3 0) (stream_at cut_archive 68)
      = ([0x61, 0x62, 0], \<lparr>str_data = cut_archive, str_pos = 70, str_fail = True\<rparr>)"
    by (simp add: istream_read_def stream_at_def cut_archive_def length_header_bytes
        length_entry_bytes Let_def numeral_3_eq_3)
  have nf: "\<not> str_fail (stream_at cut_archive 68)"
    by (simp add: stream_at_def)
  show ?thesis
    unfolding scan_entries.simps r1 prod.case Let_def eb l r2
    using nf by simp
qed

lemma extract_cut_entry:
  "extract_entry stored_platform cut_entry \<lparr>str_data = cut_archive, str_pos = 70, str_fail = True\<rparr>
     = Some (Inr [])"
proof -
  have "read_compressed 4 0 (replicate 4 0) \<lparr>str_data = cut_archive, str_pos = 70, str_fail = True\<rparr> []
      = Some []"
    by (subst read_compressed.simps) simp
  then show ?thesis
    by (simp add: extract_entry_def cut_entry_def zero_entry_def EntryType_File_def
        stored_platform_def seekg_def crc32_Nil)
qed

text \<open>
  The claim as it is written fails on an archive with a truncated path: \<^verbatim>\<open>List\<close> finds no
  entry in it, yet the request \<open>ab\<close> followed by a zero byte equals the zero-filled
  string that received the two bytes left, and \<^verbatim>\<open>ExtractData\<close> returns the empty content
  of that descriptor instead of NotFound.
\<close>

theorem ExtractData_truncated_path_counterexample:
  "magic (header_of_bytes cut_archive) = ACF_MAGIC \<and>
   List stored_platform (Some cut_archive) = Inr [] \<and>
   ExtractData stored_platform (Some cut_archive) [0x61, 0x62, 0] = Some (Inr []) \<and>
   ExtractData stored_platform (Some cut_archive) [0x61, 0x62, 0] \<noteq> Some (Inl NotFound)"
proof -
  have m: "magic (header_of_bytes cut_archive) = ACF_MAGIC"
    unfolding cut_archive_def header_of_bytes_header_bytes by (rule cut_header_fields(1))
  have "ExtractData stored_platform (Some cut_archive) [0x61, 0x62, 0] = Some (Inr [])"
    unfolding cut_archive_def ExtractData_layout [OF cut_header_fields(1-3)] cut_header_fields(5)
    using scan_cut_archive extract_cut_entry by (simp add: cut_archive_def)
  with m List_cut_archive show ?thesis
    by simp
qed

section \<open>Creating and extracting\<close>






















end
